theory Spec2Isabelle
  imports Complex_Main
begin

section \<open>Errors and control flow of the script\<close>

text \<open>
  The plotting script \<^verbatim>\<open>raster.py\<close> is straight-line Python over numpy arrays.
  An uncaught exception aborts the script before any figure is saved, so every
  operation that can raise returns \<open>error + 'a\<close>, with \<open>Inl\<close> for the exception.
  Field values are IEEE doubles in the script; they are modelled as reals, so rounding,
  NaN and signed zeros are outside the model.
\<close>

datatype error = ValueError | IndexError | ZeroDivisionError

definition then_do :: "error + 'a \<Rightarrow> ('a \<Rightarrow> error + 'b) \<Rightarrow> error + 'b" where
  "then_do m f = (case m of Inl e \<Rightarrow> Inl e | Inr v \<Rightarrow> f v)"

text \<open>A Python \<^verbatim>\<open>for\<close> loop over a list of indices, threading the loop state and
  stopping at the first exception.\<close>

fun for_each :: "'i list \<Rightarrow> ('i \<Rightarrow> 's \<Rightarrow> error + 's) \<Rightarrow> 's \<Rightarrow> error + 's" where
  "for_each [] body s = Inr s"
| "for_each (i # rest) body s =
     (case body i s of Inl e \<Rightarrow> Inl e | Inr s' \<Rightarrow> for_each rest body s')"

text \<open>\<^verbatim>\<open>range(0, n, step)\<close> for a length \<open>n\<close>: a zero step raises, a negative step
  gives the empty range.\<close>

definition py_range :: "nat \<Rightarrow> int \<Rightarrow> error + nat list" where
  "py_range n step =
     (if step = 0 then Inl ValueError
      else if step < 0 then Inr []
      else Inr (map (\<lambda>k. k * nat step) [0..<(n + nat step - 1) div nat step]))"

section \<open>Arrays\<close>

text \<open>
  A numpy array is a nested list of rows. The field \<^verbatim>\<open>fld\<close> has shape
  \<open>(ntile, ny, nx)\<close>; the script keeps \<open>ny\<close> and \<open>nx\<close> in variables of their own,
  and so does the model, since a nested list with no rows cannot record its row length.
\<close>

type_synonym field = "real list list list"

definition ntile :: nat where
  "ntile = 6"

definition wf_field :: "nat \<Rightarrow> nat \<Rightarrow> field \<Rightarrow> bool" where
  "wf_field ny nx fld \<longleftrightarrow>
     length fld = ntile \<and> (\<forall>t \<in> set fld. length t = ny \<and> (\<forall>r \<in> set t. length r = nx))"

text \<open>\<^verbatim>\<open>a[t, r, c]\<close> with non-negative indices: numpy raises IndexError out of range.\<close>

definition get3 :: "field \<Rightarrow> nat \<Rightarrow> nat \<Rightarrow> nat \<Rightarrow> error + real" where
  "get3 a t r c =
     (if t < length a \<and> r < length (a ! t) \<and> c < length (a ! t ! r)
      then Inr (a ! t ! r ! c) else Inl IndexError)"

section \<open>Polygon path\<close>

text \<open>Line 223: \<^verbatim>\<open>normavg = 1.0/args.average**2\<close>; the caller has excluded
  \<open>average = 0\<close>, where Python raises ZeroDivisionError.\<close>

definition normavg :: "int \<Rightarrow> real" where
  "normavg average = 1 / (of_int average)\<^sup>2"

text \<open>Lines 263-267. The inner statement reads \<^verbatim>\<open>fld[itile,iy+ixa,ix+ixa]\<close>: both
  offsets are \<open>ixa\<close>, and \<open>iya\<close> only counts repetitions.\<close>

definition block_value :: "field \<Rightarrow> int \<Rightarrow> nat \<Rightarrow> nat \<Rightarrow> nat \<Rightarrow> error + real" where
  "block_value fld average itile iy ix =
     then_do
       (for_each [0..<nat average]
          (\<lambda>iya. for_each [0..<nat average]
             (\<lambda>ixa v. then_do (get3 fld itile (iy + ixa) (ix + ixa)) (\<lambda>x. Inr (v + x))))
          0)
       (\<lambda>v. Inr (v * normavg average))"

text \<open>A patch added to the axes: its corner list and the value that selects its colour
  (the source passes \<^verbatim>\<open>cmap(norm(value))\<close>; the colour map belongs to the renderer).\<close>

record polygon =
  xy :: "(real \<times> real) list"
  val :: real

definition corner :: "field \<Rightarrow> field \<Rightarrow> nat \<Rightarrow> nat \<Rightarrow> nat \<Rightarrow> error + real \<times> real" where
  "corner vlons vlats itile r c =
     then_do (get3 vlons itile r c) (\<lambda>lon.
     then_do (get3 vlats itile r c) (\<lambda>lat. Inr (lon, lat)))"

text \<open>Lines 271-274: the four corners, in the order of the source.\<close>

definition corners :: "field \<Rightarrow> field \<Rightarrow> int \<Rightarrow> nat \<Rightarrow> nat \<Rightarrow> nat \<Rightarrow> error + (real \<times> real) list" where
  "corners vlons vlats average itile iy ix =
     then_do (corner vlons vlats itile (iy + 0) (ix + 0)) (\<lambda>p0.
     then_do (corner vlons vlats itile (iy + 0) (ix + nat average)) (\<lambda>p1.
     then_do (corner vlons vlats itile (iy + nat average) (ix + nat average)) (\<lambda>p2.
     then_do (corner vlons vlats itile (iy + nat average) (ix + 0)) (\<lambda>p3.
     Inr [p0, p1, p2, p3]))))"

text \<open>Lines 262-277, the body of the innermost cell loop; the state is the list of
  patches added to the axes so far.\<close>

definition cell_step ::
  "field \<Rightarrow> field \<Rightarrow> field \<Rightarrow> int \<Rightarrow> real \<Rightarrow> nat \<Rightarrow> nat \<Rightarrow> nat \<Rightarrow> polygon list \<Rightarrow> error + polygon list" where
  "cell_step fld vlons vlats average threshold itile iy ix patches =
     then_do (block_value fld average itile iy ix) (\<lambda>v.
       if \<bar>v\<bar> \<ge> threshold
       then then_do (corners vlons vlats average itile iy ix)
              (\<lambda>c. Inr (patches @ [\<lparr>xy = c, val = v\<rparr>]))
       else Inr patches)"

text \<open>Lines 258-277.\<close>

definition polygon_path ::
  "field \<Rightarrow> nat \<Rightarrow> nat \<Rightarrow> field \<Rightarrow> field \<Rightarrow> int \<Rightarrow> real \<Rightarrow> error + polygon list" where
  "polygon_path fld ny nx vlons vlats average threshold =
     for_each [0..<ntile]
       (\<lambda>itile patches. then_do (py_range ny average) (\<lambda>iys.
          for_each iys
            (\<lambda>iy patches. then_do (py_range nx average) (\<lambda>ixs.
               for_each ixs (cell_step fld vlons vlats average threshold itile iy) patches))
            patches))
       []"

text \<open>The arithmetic mean of the whole \<open>average \<times> average\<close> block, as the specification
  words it; used only to compare \<open>block_value\<close> with.\<close>

definition block_mean :: "field \<Rightarrow> nat \<Rightarrow> nat \<Rightarrow> nat \<Rightarrow> nat \<Rightarrow> real" where
  "block_mean fld average itile iy ix =
     (\<Sum>iya \<leftarrow> [0..<average]. \<Sum>ixa \<leftarrow> [0..<average]. fld ! itile ! (iy + iya) ! (ix + ixa))
       / (real average)\<^sup>2"

section \<open>Value range\<close>

text \<open>\<^verbatim>\<open>np.max\<close> and \<^verbatim>\<open>np.min\<close> reduce over all entries of the array and raise
  ValueError on an array without entries.\<close>

definition flatten3 :: "field \<Rightarrow> real list" where
  "flatten3 fld = concat (concat fld)"




section \<open>Cross path\<close>

text \<open>An entry of the cross array is a field value or \<^verbatim>\<open>np.inf\<close>.\<close>

datatype cell = Val real | PosInf

type_synonym atlas = "cell list list"

text \<open>A two-dimensional array travels with its shape \<open>(rows, columns)\<close>.\<close>

type_synonym 'a array2 = "(nat \<times> nat) \<times> 'a list list"

definition mk :: "nat \<Rightarrow> nat \<Rightarrow> (nat \<Rightarrow> nat \<Rightarrow> 'a) \<Rightarrow> 'a list list" where
  "mk m n f = map (\<lambda>i. map (\<lambda>j. f i j) [0..<n]) [0..<m]"

text \<open>\<^verbatim>\<open>np.rot90(m, k)\<close> for a two-dimensional \<open>m\<close>, following numpy's implementation:
  \<open>k\<close> is reduced modulo 4; \<open>k = 1\<close> is \<^verbatim>\<open>transpose(flip(m, 1))\<close> and \<open>k = 3\<close> is
  \<^verbatim>\<open>flip(transpose(m), 1)\<close>.\<close>

definition flip0 :: "'a list list \<Rightarrow> 'a list list" where
  "flip0 m = rev m"

definition flip1 :: "'a list list \<Rightarrow> 'a list list" where
  "flip1 m = map rev m"

definition transpose2 :: "'a array2 \<Rightarrow> 'a array2" where
  "transpose2 a = (case a of ((p, q), m) \<Rightarrow> ((q, p), mk q p (\<lambda>i j. m ! j ! i)))"

definition rot90 :: "'a array2 \<Rightarrow> nat \<Rightarrow> 'a array2" where
  "rot90 a k =
     (if k mod 4 = 0 then a
      else if k mod 4 = 2 then (fst a, flip1 (flip0 (snd a)))
      else if k mod 4 = 1 then transpose2 (fst a, flip1 (snd a))
      else (case transpose2 a of (s, m) \<Rightarrow> (s, flip1 m)))"

text \<open>Broadcasting an array to a target shape: every axis has the target's length or
  length 1, otherwise numpy raises ValueError.\<close>

definition broadcastable :: "nat \<times> nat \<Rightarrow> nat \<times> nat \<Rightarrow> bool" where
  "broadcastable target s \<longleftrightarrow>
     (fst s = fst target \<or> fst s = 1) \<and> (snd s = snd target \<or> snd s = 1)"

definition broadcast_to :: "nat \<times> nat \<Rightarrow> 'a array2 \<Rightarrow> error + 'a list list" where
  "broadcast_to target a =
     (if broadcastable target (fst a)
      then Inr (mk (fst target) (snd target)
                  (\<lambda>i j. snd a ! (if fst (fst a) = 1 then 0 else i)
                                ! (if snd (fst a) = 1 then 0 else j)))
      else Inl ValueError)"

text \<open>\<^verbatim>\<open>a[r0:r1, c0:c1] = b\<close> on an array \<open>a\<close> of shape \<open>shp\<close>: the slice bounds are
  clipped to the shape, and \<open>b\<close> is broadcast to the shape of the slice.\<close>

definition assign_block ::
  "nat \<times> nat \<Rightarrow> atlas \<Rightarrow> nat \<times> nat \<Rightarrow> nat \<times> nat \<Rightarrow> real array2 \<Rightarrow> error + atlas" where
  "assign_block shp a rs cs b =
     (let r0 = min (fst rs) (fst shp); r1 = min (snd rs) (fst shp);
          c0 = min (fst cs) (snd shp); c1 = min (snd cs) (snd shp)
      in then_do (broadcast_to (r1 - r0, c1 - c0) b) (\<lambda>rows.
           Inr (mk (fst shp) (snd shp)
                  (\<lambda>i j. if r0 \<le> i \<and> i < r1 \<and> c0 \<le> j \<and> j < c1
                          then Val (rows ! (i - r0) ! (j - c0)) else a ! i ! j))))"

text \<open>\<^verbatim>\<open>fld[k,:,:]\<close>, of shape \<open>(ny, nx)\<close>.\<close>

definition tile :: "field \<Rightarrow> nat \<Rightarrow> nat \<Rightarrow> nat \<Rightarrow> error + real array2" where
  "tile fld ny nx k = (if k < length fld then Inr ((ny, nx), fld ! k) else Inl IndexError)"

text \<open>Lines 249-254 as a table, in the order of the source: tile, number of quarter
  turns given to \<^verbatim>\<open>np.rot90\<close> (none where the source does not rotate), row slice and
  column slice of the destination.\<close>

definition placements :: "nat \<Rightarrow> nat \<Rightarrow> (nat \<times> nat \<times> (nat \<times> nat) \<times> (nat \<times> nat)) list" where
  "placements ny nx =
     [(0, 0, (1 * nx, 2 * nx), (1 * ny, 2 * ny)),
      (1, 0, (1 * nx, 2 * nx), (2 * ny, 3 * ny)),
      (2, 3, (2 * nx, 3 * nx), (1 * ny, 2 * ny)),
      (3, 1, (1 * nx, 2 * nx), (3 * ny, 4 * ny)),
      (4, 1, (1 * nx, 2 * nx), (0 * ny, 1 * ny)),
      (5, 0, (0 * nx, 1 * nx), (1 * ny, 2 * ny))]"

text \<open>Lines 247-248.\<close>

definition cross_init :: "nat \<Rightarrow> nat \<Rightarrow> atlas" where
  "cross_init nxc nyc = map (map (\<lambda>_. PosInf)) (mk nxc nyc (\<lambda>i j. Val 0))"

definition place :: "field \<Rightarrow> nat \<Rightarrow> nat \<Rightarrow> nat \<times> nat \<times> (nat \<times> nat) \<times> (nat \<times> nat) \<Rightarrow> atlas \<Rightarrow> error + atlas" where
  "place fld ny nx p fld_cross =
     (case p of (k, turns, rs, cs) \<Rightarrow>
        then_do (tile fld ny nx k) (\<lambda>t.
          assign_block (3 * nx, 4 * ny) fld_cross rs cs (rot90 t turns)))"

text \<open>Lines 245-254.\<close>

definition build_cross :: "field \<Rightarrow> nat \<Rightarrow> nat \<Rightarrow> error + atlas" where
  "build_cross fld ny nx =
     (let nxc = 3 * nx; nyc = 4 * ny
      in for_each (placements ny nx) (place fld ny nx) (cross_init nxc nyc))"

section \<open>The mesh stage of the script\<close>



section \<open>Field assembly from six per-tile sources\<close>

text \<open>Lines 169-204. The netCDF reads are outside the model: \<open>srcs\<close> holds, for each
  tile, the two-dimensional slice the read returned, with its shape; a missing source
  raises.\<close>

definition read_slice :: "real array2 list \<Rightarrow> nat \<Rightarrow> error + real array2" where
  "read_slice srcs itile = (if itile < length srcs then Inr (srcs ! itile) else Inl IndexError)"

text \<open>Lines 175-187; the state is the shape \<open>(ny, nx)\<close> and the field.\<close>

definition read_step :: "real array2 list \<Rightarrow> nat \<Rightarrow> (nat \<times> nat) \<times> field \<Rightarrow> error + (nat \<times> nat) \<times> field" where
  "read_step srcs itile st =
     then_do (read_slice srcs itile) (\<lambda>fld_tmp.
       let st' = (if itile = 0
                  then (fst fld_tmp, replicate ntile (mk (fst (fst fld_tmp)) (snd (fst fld_tmp)) (\<lambda>i j. 0)))
                  else st)
       in then_do (broadcast_to (fst st') fld_tmp) (\<lambda>rows.
            Inr (fst st', (snd st')[itile := rows])))"

text \<open>Elementwise subtraction with broadcasting: the result has, on each axis, the
  common length or the length that is not 1.\<close>

definition broadcast_shape :: "nat \<times> nat \<Rightarrow> nat \<times> nat \<Rightarrow> error + nat \<times> nat" where
  "broadcast_shape s t =
     (if (fst s = fst t \<or> fst s = 1 \<or> fst t = 1) \<and> (snd s = snd t \<or> snd s = 1 \<or> snd t = 1)
      then Inr (if fst s = 1 then fst t else fst s, if snd s = 1 then snd t else snd s)
      else Inl ValueError)"

definition np_sub :: "real array2 \<Rightarrow> real array2 \<Rightarrow> error + real array2" where
  "np_sub a b =
     then_do (broadcast_shape (fst a) (fst b)) (\<lambda>s.
     then_do (broadcast_to s a) (\<lambda>x.
     then_do (broadcast_to s b) (\<lambda>y.
       Inr (s, mk (fst s) (snd s) (\<lambda>i j. x ! i ! j - y ! i ! j)))))"

text \<open>Lines 201-204.\<close>

definition base_step :: "real array2 list \<Rightarrow> nat \<Rightarrow> (nat \<times> nat) \<times> field \<Rightarrow> error + (nat \<times> nat) \<times> field" where
  "base_step bsrcs itile st =
     then_do (read_slice bsrcs itile) (\<lambda>fld_tmp.
     then_do (tile (snd st) (fst (fst st)) (snd (fst st)) itile) (\<lambda>cur.
     then_do (np_sub cur fld_tmp) (\<lambda>d.
     then_do (broadcast_to (fst st) d) (\<lambda>rows.
       Inr (fst st, (snd st)[itile := rows])))))"

definition assemble :: "real array2 list \<Rightarrow> real array2 list option \<Rightarrow> error + (nat \<times> nat) \<times> field" where
  "assemble srcs basesrcs =
     then_do (for_each [0..<ntile] (read_step srcs) ((0, 0), []))
       (\<lambda>st. case basesrcs of
                None \<Rightarrow> Inr st
              | Some bsrcs \<Rightarrow> for_each [0..<ntile] (base_step bsrcs) st)"

section \<open>Notions used to state the properties\<close>

text \<open>The averaged cells of the polygon path in emission order (tile, then row, then
  column), each named by its tile and the row and column of its first field cell.\<close>

definition avg_cells :: "nat \<Rightarrow> nat \<Rightarrow> nat \<Rightarrow> (nat \<times> nat \<times> nat) list" where
  "avg_cells ny nx a =
     [(t, ky * a, kx * a). t \<leftarrow> [0..<ntile], ky \<leftarrow> [0..<ny div a], kx \<leftarrow> [0..<nx div a]]"

text \<open>The value \<open>block_value\<close> attaches to a cell, and the polygon the source builds
  for it.\<close>

definition cell_value :: "field \<Rightarrow> nat \<Rightarrow> nat \<times> nat \<times> nat \<Rightarrow> real" where
  "cell_value fld a c =
     (case c of (t, iy, ix) \<Rightarrow>
        (case block_value fld (int a) t iy ix of Inr v \<Rightarrow> v | Inl e \<Rightarrow> 0))"

definition cell_polygon :: "field \<Rightarrow> field \<Rightarrow> field \<Rightarrow> nat \<Rightarrow> nat \<times> nat \<times> nat \<Rightarrow> polygon" where
  "cell_polygon fld vlons vlats a c =
     (case c of (t, iy, ix) \<Rightarrow>
        \<lparr>xy = [(vlons ! t ! iy ! ix, vlats ! t ! iy ! ix),
               (vlons ! t ! iy ! (ix + a), vlats ! t ! iy ! (ix + a)),
               (vlons ! t ! (iy + a) ! (ix + a), vlats ! t ! (iy + a) ! (ix + a)),
               (vlons ! t ! (iy + a) ! ix, vlats ! t ! (iy + a) ! ix)],
         val = cell_value fld a c\<rparr>)"

text \<open>The sum over the diagonal of a block, which is what the accumulation loop reads.\<close>

definition diag_sum :: "field \<Rightarrow> nat \<Rightarrow> nat \<Rightarrow> nat \<Rightarrow> nat \<Rightarrow> real" where
  "diag_sum fld a t iy ix = (\<Sum>k \<leftarrow> [0..<a]. fld ! t ! (iy + k) ! (ix + k))"

text \<open>Small inputs for the examples: a field of six distinct \<open>2 \<times> 2\<close> tiles with its
  \<open>3 \<times> 3\<close> vertex grids, and a field of \<open>3 \<times> 3\<close> tiles with its \<open>4 \<times> 4\<close> vertex grids.\<close>

definition field2 :: field where
  "field2 = [[[1, 2], [3, 4]], [[5, 6], [7, 8]], [[9, 10], [11, 12]],
             [[13, 14], [15, 16]], [[17, 18], [19, 20]], [[21, 22], [23, 24]]]"

definition vlons2 :: field where
  "vlons2 = replicate 6 [[0, 1, 2], [0, 1, 2], [0, 1, 2]]"

definition vlats2 :: field where
  "vlats2 = replicate 6 [[0, 0, 0], [1, 1, 1], [2, 2, 2]]"

definition field3 :: field where
  "field3 = replicate 6 [[1, 2, 3], [4, 5, 6], [7, 8, 9]]"

definition vlons3 :: field where
  "vlons3 = replicate 6 [[0, 1, 2, 3], [0, 1, 2, 3], [0, 1, 2, 3], [0, 1, 2, 3]]"

definition vlats3 :: field where
  "vlats3 = replicate 6 [[0, 0, 0, 0], [1, 1, 1, 1], [2, 2, 2, 2], [3, 3, 3, 3]]"

text \<open>The index set of the destination block of a row of the placement table, and the
  value the assignment of that row stores at an index of its block.\<close>

definition block_cells :: "nat \<times> nat \<times> (nat \<times> nat) \<times> (nat \<times> nat) \<Rightarrow> (nat \<times> nat) set" where
  "block_cells p = (case p of (k, turns, (r0, r1), (c0, c1)) \<Rightarrow> {r0..<r1} \<times> {c0..<c1})"

definition written ::
  "field \<Rightarrow> nat \<Rightarrow> nat \<Rightarrow> nat \<times> nat \<times> (nat \<times> nat) \<times> (nat \<times> nat) \<Rightarrow> nat \<Rightarrow> nat \<Rightarrow> cell" where
  "written fld ny nx p i j =
     (case p of (k, turns, (r0, r1), (c0, c1)) \<Rightarrow>
        Val (snd (rot90 ((ny, nx), fld ! k) turns) ! (i - r0) ! (j - c0)))"

text \<open>The cross array cell by cell, for square tiles of edge \<open>n\<close>.\<close>

definition cross_at :: "field \<Rightarrow> nat \<Rightarrow> nat \<Rightarrow> nat \<Rightarrow> cell" where
  "cross_at fld n i j =
     (if n \<le> i \<and> i < 2 * n \<and> n \<le> j \<and> j < 2 * n then Val (fld ! 0 ! (i - n) ! (j - n))
      else if n \<le> i \<and> i < 2 * n \<and> 2 * n \<le> j \<and> j < 3 * n then Val (fld ! 1 ! (i - n) ! (j - 2 * n))
      else if 2 * n \<le> i \<and> i < 3 * n \<and> n \<le> j \<and> j < 2 * n
        then Val (fld ! 2 ! (n - 1 - (j - n)) ! (i - 2 * n))
      else if n \<le> i \<and> i < 2 * n \<and> 3 * n \<le> j \<and> j < 4 * n
        then Val (fld ! 3 ! (j - 3 * n) ! (n - 1 - (i - n)))
      else if n \<le> i \<and> i < 2 * n \<and> j < n then Val (fld ! 4 ! j ! (n - 1 - (i - n)))
      else if i < n \<and> n \<le> j \<and> j < 2 * n then Val (fld ! 5 ! i ! (j - n))
      else PosInf)"

text \<open>The loop state of the assembly has shape \<open>s\<close> and a field of that shape.\<close>

definition shaped :: "nat \<times> nat \<Rightarrow> (nat \<times> nat) \<times> field \<Rightarrow> bool" where
  "shaped s st \<longleftrightarrow> fst st = s \<and> wf_field (fst s) (snd s) (snd st)"

text \<open>Per-tile slices for the examples: tiles 1, 2 and 3 of \<open>slices_ok\<close> have an axis of
  length 1 where tile 0 has length 2; tile 5 of \<open>slices_bad\<close> has three rows.\<close>

definition slices_ok :: "real array2 list" where
  "slices_ok = [((2, 2), [[1, 2], [3, 4]]), ((1, 2), [[5, 6]]), ((2, 1), [[7], [8]]),
                ((1, 1), [[9]]), ((2, 2), [[1, 2], [3, 4]]), ((2, 2), [[1, 2], [3, 4]])]"

definition slices_bad :: "real array2 list" where
  "slices_bad = [((2, 2), [[1, 2], [3, 4]]), ((2, 2), [[1, 2], [3, 4]]), ((2, 2), [[1, 2], [3, 4]]),
                 ((2, 2), [[1, 2], [3, 4]]), ((2, 2), [[1, 2], [3, 4]]),
                 ((3, 2), [[1, 2], [3, 4], [5, 6]])]"

section \<open>Loops that only succeed\<close>

text \<open>A loop whose body adds to an accumulator, or appends to a list, in every iteration
  returns the sum, or the concatenation.\<close>

lemma then_do_Inr [simp]: "then_do (Inr v) f = f v"
  by (simp add: then_do_def)

lemma then_do_Inl [simp]: "then_do (Inl e) f = Inl e"
  by (simp add: then_do_def)

lemma for_each_sum:
  "(\<And>x v. x \<in> set xs \<Longrightarrow> body x v = Inr (v + g x)) \<Longrightarrow>
   for_each xs body (v::real) = Inr (v + sum_list (map g xs))"
  by (induction xs arbitrary: v) (simp_all add: add.assoc)

lemma for_each_concat:
  "(\<And>x s. x \<in> set xs \<Longrightarrow> body x s = Inr (s @ g x)) \<Longrightarrow>
   for_each xs body s = Inr (s @ concat (map g xs))"
  by (induction xs arbitrary: s) simp_all

section \<open>The polygon path on well-shaped input\<close>

text \<open>Inside a field of shape \<open>(6, ny, nx)\<close> every read succeeds; the accumulation loop then
  returns \<open>average\<close> times the diagonal sum of the block.\<close>

lemma wf_field_lengths:
  assumes "wf_field ny nx fld" "t < ntile"
  shows "length fld = ntile" and "length (fld ! t) = ny"
    and "r < ny \<Longrightarrow> length (fld ! t ! r) = nx"
proof -
  from assms show len: "length fld = ntile" by (simp add: wf_field_def)
  with assms have mem: "fld ! t \<in> set fld" by simp
  with assms show r: "length (fld ! t) = ny" by (simp add: wf_field_def)
  assume "r < ny"
  with r have "fld ! t ! r \<in> set (fld ! t)" by simp
  with mem assms show "length (fld ! t ! r) = nx" by (auto simp: wf_field_def)
qed

lemma get3_wf:
  assumes "wf_field ny nx fld" "t < ntile" "r < ny" "c < nx"
  shows "get3 fld t r c = Inr (fld ! t ! r ! c)"
  using assms by (simp add: get3_def wf_field_lengths [OF assms(1,2)])

lemma block_value_wf:
  assumes wf: "wf_field ny nx fld" and t: "t < ntile" and iy: "iy + a \<le> ny" and ix: "ix + a \<le> nx"
  shows "block_value fld (int a) t iy ix = Inr (real a * diag_sum fld a t iy ix * normavg (int a))"
proof -
  let ?inner = "\<lambda>ixa v. then_do (get3 fld t (iy + ixa) (ix + ixa)) (\<lambda>x. Inr (v + x))"
  have inner: "for_each [0..<a] ?inner v = Inr (v + diag_sum fld a t iy ix)" for v
    unfolding diag_sum_def
  proof (rule for_each_sum)
    fix k v assume "k \<in> set [0..<a]"
    with iy ix have "iy + k < ny" "ix + k < nx" by simp_all
    then show "?inner k v = Inr (v + fld ! t ! (iy + k) ! (ix + k))"
      by (simp add: get3_wf [OF wf t])
  qed
  have "for_each [0..<a] (\<lambda>iya. for_each [0..<a] ?inner) 0
          = Inr (0 + sum_list (map (\<lambda>_. diag_sum fld a t iy ix) [0..<a]))"
    by (rule for_each_sum) (simp add: inner)
  also have "sum_list (map (\<lambda>_. diag_sum fld a t iy ix) [0..<a]) = real a * diag_sum fld a t iy ix"
    by (simp add: sum_list_triv)
  finally show ?thesis
    by (simp add: block_value_def)
qed

lemma ceil_div_dvd:
  assumes "0 < a" "a dvd n"
  shows "(n + a - Suc 0) div a = n div (a::nat)"
proof -
  from assms obtain m where n: "n = m * a" by (auto simp: dvd_def)
  from assms obtain b where a: "a = Suc b" by (cases a) simp_all
  have "n + a - Suc 0 = m * a + b" by (simp add: n a)
  also have "\<dots> div a = m + b div a" using assms by (simp only: div_mult_self3)
  also have "b div a = 0" by (simp add: a)
  finally show ?thesis using assms by (simp add: n)
qed

lemma py_range_dvd:
  assumes "0 < a" "a dvd n"
  shows "py_range n (int a) = Inr (map (\<lambda>k. k * a) [0..<n div a])"
  using assms by (simp add: py_range_def ceil_div_dvd)

lemma block_fits:
  assumes "k < n div a"
  shows "k * a + a \<le> (n::nat)"
proof -
  have "Suc k * a \<le> (n div a) * a" using assms by (intro mult_le_mono1) simp
  also have "\<dots> \<le> n" by simp
  finally show ?thesis by simp
qed

lemma corners_wf:
  assumes "wf_field (Suc ny) (Suc nx) vlons" "wf_field (Suc ny) (Suc nx) vlats"
    and "t < ntile" "iy + a \<le> ny" "ix + a \<le> nx"
  shows "corners vlons vlats (int a) t iy ix =
           Inr [(vlons ! t ! iy ! ix, vlats ! t ! iy ! ix),
                (vlons ! t ! iy ! (ix + a), vlats ! t ! iy ! (ix + a)),
                (vlons ! t ! (iy + a) ! (ix + a), vlats ! t ! (iy + a) ! (ix + a)),
                (vlons ! t ! (iy + a) ! ix, vlats ! t ! (iy + a) ! ix)]"
  using assms(3-5)
  by (simp add: corners_def corner_def get3_wf [OF assms(1) assms(3)] get3_wf [OF assms(2) assms(3)])

lemma cell_step_wf:
  assumes wf: "wf_field ny nx fld"
    and vl: "wf_field (Suc ny) (Suc nx) vlons" "wf_field (Suc ny) (Suc nx) vlats"
    and c: "t < ntile" "iy + a \<le> ny" "ix + a \<le> nx"
  shows "cell_step fld vlons vlats (int a) th t iy ix ps =
           Inr (ps @ (if th \<le> \<bar>cell_value fld a (t, iy, ix)\<bar>
                      then [cell_polygon fld vlons vlats a (t, iy, ix)] else []))"
  using c
  by (simp add: cell_step_def cell_value_def cell_polygon_def block_value_wf [OF wf c]
      corners_wf [OF vl c])

lemma concat_map_concat_map:
  "concat (map f (concat (map g xs))) = concat (map (\<lambda>x. concat (map f (g x))) xs)"
  by (induction xs) simp_all

lemma concat_map_if:
  "concat (map (\<lambda>c. if P c then [f c] else []) xs) = map f (filter P xs)"
  by (induction xs) simp_all

lemma polygon_path_wf:
  assumes wf: "wf_field ny nx fld"
    and vl: "wf_field (Suc ny) (Suc nx) vlons" "wf_field (Suc ny) (Suc nx) vlats"
    and a: "0 < a" "a dvd ny" "a dvd nx"
  shows "polygon_path fld ny nx vlons vlats (int a) th =
           Inr (map (cell_polygon fld vlons vlats a)
                  (filter (\<lambda>c. th \<le> \<bar>cell_value fld a c\<bar>) (avg_cells ny nx a)))"
proof -
  let ?out = "\<lambda>c. if th \<le> \<bar>cell_value fld a c\<bar> then [cell_polygon fld vlons vlats a c] else []"
  have row: "for_each (map (\<lambda>k. k * a) [0..<nx div a]) (cell_step fld vlons vlats (int a) th t (ky * a)) ps
               = Inr (ps @ concat (map (\<lambda>ix. ?out (t, ky * a, ix)) (map (\<lambda>k. k * a) [0..<nx div a])))"
    if "t < ntile" "ky < ny div a" for t ky ps
  proof (rule for_each_concat)
    fix ix s assume "ix \<in> set (map (\<lambda>k. k * a) [0..<nx div a])"
    then obtain kx where "kx < nx div a" "ix = kx * a" by auto
    with that block_fits [of ky ny a] block_fits [of kx nx a]
    show "cell_step fld vlons vlats (int a) th t (ky * a) ix s = Inr (s @ ?out (t, ky * a, ix))"
      by (intro cell_step_wf [OF wf vl]) simp_all
  qed
  have tile: "for_each (map (\<lambda>k. k * a) [0..<ny div a])
                (\<lambda>iy patches. then_do (py_range nx (int a))
                   (\<lambda>ixs. for_each ixs (cell_step fld vlons vlats (int a) th t iy) patches)) ps
               = Inr (ps @ concat (map (\<lambda>iy. concat (map (\<lambda>ix. ?out (t, iy, ix)) (map (\<lambda>k. k * a) [0..<nx div a])))
                                       (map (\<lambda>k. k * a) [0..<ny div a])))"
    if "t < ntile" for t ps
  proof (rule for_each_concat)
    fix iy s assume "iy \<in> set (map (\<lambda>k. k * a) [0..<ny div a])"
    then obtain ky where ky: "ky < ny div a" "iy = ky * a" by auto
    show "then_do (py_range nx (int a))
            (\<lambda>ixs. for_each ixs (cell_step fld vlons vlats (int a) th t iy) s)
          = Inr (s @ concat (map (\<lambda>ix. ?out (t, iy, ix)) (map (\<lambda>k. k * a) [0..<nx div a])))"
      unfolding ky(2) by (simp add: py_range_dvd [OF a(1) a(3)] row [OF that ky(1)])
  qed
  have "polygon_path fld ny nx vlons vlats (int a) th
          = Inr ([] @ concat (map (\<lambda>t. concat (map (\<lambda>iy. concat (map (\<lambda>ix. ?out (t, iy, ix)) (map (\<lambda>k. k * a) [0..<nx div a])))
                                       (map (\<lambda>k. k * a) [0..<ny div a]))) [0..<ntile]))"
    unfolding polygon_path_def
    by (rule for_each_concat) (simp add: py_range_dvd [OF a(1) a(2)] tile)
  also have "concat (map (\<lambda>t. concat (map (\<lambda>iy. concat (map (\<lambda>ix. ?out (t, iy, ix)) (map (\<lambda>k. k * a) [0..<nx div a])))
                                       (map (\<lambda>k. k * a) [0..<ny div a]))) [0..<ntile])
             = concat (map ?out (avg_cells ny nx a))"
    by (simp add: avg_cells_def concat_map_concat_map comp_def)
  finally show ?thesis by (simp add: concat_map_if)
qed

lemma avg_cells_distinct:
  assumes "0 < a"
  shows "distinct (avg_cells ny nx a)"
proof -
  have eq: "avg_cells ny nx a =
          map (\<lambda>(t, ky, kx). (t, ky * a, kx * a))
            (List.product [0..<ntile] (List.product [0..<ny div a] [0..<nx div a]))"
    by (simp add: avg_cells_def product_concat_map map_concat comp_def)
  have "inj (\<lambda>(t::nat, ky, kx). (t, ky * a, kx * a))"
    using assms by (auto simp: inj_on_def)
  then have "inj_on (\<lambda>(t::nat, ky, kx). (t, ky * a, kx * a)) A" for A
    by (rule inj_on_subset) simp
  then show ?thesis unfolding eq
    by (simp add: distinct_map distinct_product)
qed

text \<open>With \<open>average = 1\<close> the cells are the entries of the field, in array order.\<close>

lemma cell_value_one:
  assumes wf: "wf_field ny nx fld" and c: "t < ntile" "iy < ny" "ix < nx"
  shows "block_value fld 1 t iy ix = Inr (fld ! t ! iy ! ix)"
    and "cell_value fld (Suc 0) (t, iy, ix) = fld ! t ! iy ! ix"
proof -
  from c have "iy + 1 \<le> ny" "ix + 1 \<le> nx" by simp_all
  from block_value_wf [OF wf c(1) this]
  show 1: "block_value fld 1 t iy ix = Inr (fld ! t ! iy ! ix)"
    by (simp add: diag_sum_def normavg_def)
  then show "cell_value fld (Suc 0) (t, iy, ix) = fld ! t ! iy ! ix"
    by (simp add: cell_value_def)
qed

lemma map_nth_eq: "length xs = n \<Longrightarrow> map (\<lambda>i. xs ! i) [0..<n] = xs"
  using map_nth [of xs] by simp

lemma concat_map_concat: "concat (map concat xss) = concat (concat xss)"
  by (induction xss) simp_all

lemma averaged_one_flatten:
  assumes wf: "wf_field ny nx fld"
  shows "map (cell_value fld (Suc 0)) (avg_cells ny nx (Suc 0)) = flatten3 fld"
proof -
  have row: "map (\<lambda>kx. cell_value fld (Suc 0) (t, ky, kx)) [0..<nx] = fld ! t ! ky"
    if "t < ntile" "ky < ny" for t ky
  proof -
    have "map (\<lambda>kx. cell_value fld (Suc 0) (t, ky, kx)) [0..<nx] = map (\<lambda>kx. fld ! t ! ky ! kx) [0..<nx]"
      using that by (intro map_cong refl) (simp add: cell_value_one [OF wf])
    moreover from that have "length (fld ! t ! ky) = nx"
      by (simp add: wf_field_lengths [OF wf])
    ultimately show ?thesis by (simp add: map_nth_eq)
  qed
  have tile: "concat (map (\<lambda>ky. map (\<lambda>kx. cell_value fld (Suc 0) (t, ky, kx)) [0..<nx]) [0..<ny]) = concat (fld ! t)"
    if "t < ntile" for t
  proof -
    have "map (\<lambda>ky. map (\<lambda>kx. cell_value fld (Suc 0) (t, ky, kx)) [0..<nx]) [0..<ny] = map (\<lambda>ky. fld ! t ! ky) [0..<ny]"
      using that by (intro map_cong refl) (simp add: row)
    moreover from that have "length (fld ! t) = ny"
      by (simp add: wf_field_lengths [OF wf])
    ultimately show ?thesis by (simp add: map_nth_eq)
  qed
  have "map (cell_value fld (Suc 0)) (avg_cells ny nx (Suc 0))
          = concat (map (\<lambda>t. concat (map (\<lambda>ky. map (\<lambda>kx. cell_value fld (Suc 0) (t, ky, kx)) [0..<nx]) [0..<ny])) [0..<ntile])"
    by (simp add: avg_cells_def map_concat comp_def)
  also have "map (\<lambda>t. concat (map (\<lambda>ky. map (\<lambda>kx. cell_value fld (Suc 0) (t, ky, kx)) [0..<nx]) [0..<ny])) [0..<ntile]
               = map (\<lambda>t. concat (fld ! t)) [0..<ntile]"
    by (intro map_cong refl) (simp add: tile)
  also have "\<dots> = map concat (map (\<lambda>t. fld ! t) [0..<ntile])"
    by (simp add: comp_def)
  also have "map (\<lambda>t. fld ! t) [0..<ntile] = fld"
    using wf by (simp add: map_nth_eq wf_field_def)
  finally show ?thesis by (simp add: flatten3_def concat_map_concat)
qed

section \<open>Loops that fail\<close>

text \<open>A loop fails as soon as one of its iterations fails from every state, and an error
  of a loop is an error of one of its iterations. In the polygon path with a positive
  \<open>average\<close> the only error is IndexError.\<close>

lemma for_each_fails:
  assumes "x \<in> set xs" and "\<And>s. isl (body x s)"
  shows "isl (for_each xs body s)"
  using assms(1)
proof (induction xs arbitrary: s)
  case Nil
  then show ?case by simp
next
  case (Cons y ys)
  show ?case
  proof (cases "body y s")
    case (Inl e)
    then show ?thesis by simp
  next
    case (Inr s')
    with Cons assms(2) [of s] have "x \<in> set ys" by auto
    with Cons.IH Inr show ?thesis by simp
  qed
qed

lemma for_each_error:
  assumes "for_each xs body s = Inl e"
  shows "\<exists>x \<in> set xs. \<exists>s'. body x s' = Inl e"
  using assms
  by (induction xs arbitrary: s) (auto split: sum.splits)

lemma then_do_error:
  assumes "then_do m f = Inl e"
  shows "m = Inl e \<or> (\<exists>v. m = Inr v \<and> f v = Inl e)"
  using assms by (cases m) simp_all

lemma get3_error: "get3 a t r c = Inl e \<Longrightarrow> e = IndexError"
  by (simp add: get3_def split: if_splits)

lemma block_value_error:
  assumes "block_value fld average t iy ix = Inl e"
  shows "e = IndexError"
proof -
  from assms have "for_each [0..<nat average]
          (\<lambda>iya. for_each [0..<nat average]
             (\<lambda>ixa v. then_do (get3 fld t (iy + ixa) (ix + ixa)) (\<lambda>x. Inr (v + x)))) 0 = Inl e"
    by (auto simp: block_value_def dest: then_do_error)
  then obtain v where "for_each [0..<nat average]
             (\<lambda>ixa v. then_do (get3 fld t (iy + ixa) (ix + ixa)) (\<lambda>x. Inr (v + x))) v = Inl e"
    by (blast dest: for_each_error)
  then obtain ixa v' where "then_do (get3 fld t (iy + ixa) (ix + ixa)) (\<lambda>x. Inr (v' + x)) = Inl e"
    by (blast dest: for_each_error)
  then show ?thesis
    by (auto dest: then_do_error get3_error)
qed

lemma corners_error:
  assumes "corners vlons vlats average t iy ix = Inl e"
  shows "e = IndexError"
  using assms unfolding corners_def corner_def
  by (auto dest!: then_do_error dest: get3_error)

lemma cell_step_error:
  assumes "cell_step fld vlons vlats average th t iy ix ps = Inl e"
  shows "e = IndexError"
  using assms unfolding cell_step_def
  by (auto dest!: then_do_error dest: block_value_error corners_error split: if_splits)

lemma polygon_path_error:
  assumes "polygon_path fld ny nx vlons vlats average th = Inl e" "0 < average"
  shows "e = IndexError"
proof -
  from assms(2) have r: "py_range n average \<noteq> Inl e'" for n e'
    by (simp add: py_range_def)
  from assms(1) obtain t ps where "then_do (py_range ny average) (\<lambda>iys.
          for_each iys
            (\<lambda>iy patches. then_do (py_range nx average) (\<lambda>ixs.
               for_each ixs (cell_step fld vlons vlats average th t iy) patches))
            ps) = Inl e"
    unfolding polygon_path_def by (blast dest: for_each_error)
  with r obtain iys where "for_each iys
            (\<lambda>iy patches. then_do (py_range nx average) (\<lambda>ixs.
               for_each ixs (cell_step fld vlons vlats average th t iy) patches))
            ps = Inl e"
    by (blast dest: then_do_error)
  then obtain iy ps' where "then_do (py_range nx average) (\<lambda>ixs.
               for_each ixs (cell_step fld vlons vlats average th t iy) ps') = Inl e"
    by (blast dest: for_each_error)
  with r obtain ixs where "for_each ixs (cell_step fld vlons vlats average th t iy) ps' = Inl e"
    by (blast dest: then_do_error)
  then show ?thesis
    by (blast dest: for_each_error cell_step_error)
qed

lemma py_range_pos:
  assumes "0 < a"
  shows "py_range n (int a) = Inr (map (\<lambda>k. k * a) [0..<(n + a - 1) div a])"
  using assms by (simp add: py_range_def)

lemma block_value_overrun:
  assumes wf: "wf_field ny nx fld" and over: "ix < nx" "nx < ix + a"
  shows "isl (block_value fld (int a) 0 iy ix)"
proof -
  let ?inner = "\<lambda>ixa v. then_do (get3 fld 0 (iy + ixa) (ix + ixa)) (\<lambda>x. Inr (v + x))"
  have fail: "isl (?inner (nx - ix) v)" for v
  proof -
    have "length (fld ! 0 ! r) = nx" if "r < length (fld ! 0)" for r
      using that wf_field_lengths(2,3) [OF wf, of 0] by (simp add: ntile_def)
    then have "get3 fld 0 (iy + (nx - ix)) nx = Inl IndexError"
      by (simp add: get3_def)
    with over show ?thesis by simp
  qed
  from over have mem: "nx - ix \<in> set [0..<a]" by simp
  have "isl (for_each [0..<a] ?inner v)" for v
    using mem fail by (rule for_each_fails [where x = "nx - ix" and body = ?inner])
  moreover from over have "0 \<in> set [0..<a]" by simp
  ultimately have "isl (for_each [0..<a] (\<lambda>iya. for_each [0..<a] ?inner) 0)"
    by (intro for_each_fails [where x = 0 and body = "\<lambda>iya. for_each [0..<a] ?inner"])
  then show ?thesis
    by (auto simp: block_value_def isl_def)
qed

section \<open>Properties of the polygon path\<close>

text \<open>
  C1 (block averaging). The claim: for every \<open>average \<ge> 1\<close> dividing \<open>ny\<close> and \<open>nx\<close>,
  the value of an averaged cell is the arithmetic mean of all \<open>average\<^sup>2\<close> cells of its
  block, and the block \<open>[[1,2],[3,4]]\<close> averages to \<open>2.5\<close>. The accumulation loop indexes
  row and column with the same inner counter, so it sums the diagonal of the block
  \<open>average\<close> times (lemma \<open>block_value_wf\<close>). On the block \<open>[[1,2],[3,5]]\<close> the source
  yields \<open>3\<close> where the mean is \<open>11/4\<close>; on \<open>[[1,2],[3,4]]\<close> the diagonal happens to
  have the mean of the block, \<open>5/2\<close>.
\<close>

theorem block_value_diagonal_not_mean:
  "block_value (replicate 6 [[1, 2], [3, 5]]) 2 0 0 0 = Inr 3
   \<and> block_mean (replicate 6 [[1, 2], [3, 5]]) 2 0 0 0 = 11 / 4
   \<and> block_value (replicate 6 [[1, 2], [3, 4]]) 2 0 0 0 = Inr (5 / 2)
   \<and> block_mean (replicate 6 [[1, 2], [3, 4]]) 2 0 0 0 = 5 / 2"
  by code_simp

text \<open>
  C3 (average not dividing the tile edge). The claim: the polygon path then reads past
  the block silently and produces output. numpy checks every index, so the read past
  the last column raises: on \<open>3 \<times> 3\<close> tiles with \<open>average = 2\<close> the path ends in
  IndexError and returns no polygons.
\<close>

theorem non_dividing_average_raises_example:
  "polygon_path field3 3 3 vlons3 vlats3 2 0 = Inl IndexError"
  by code_simp

text \<open>
  C3, as the source behaves: for a field of square tiles, an \<open>average > 1\<close> that does
  not divide the tile edge makes the polygon path raise IndexError, whatever the vertex
  grids and the threshold; divisibility is not checked beforehand.
\<close>

theorem non_dividing_average_fails:
  assumes wf: "wf_field ny nx fld" and sq: "ny = nx" and a: "1 < a" "\<not> a dvd ny"
  shows "polygon_path fld ny nx vlons vlats (int a) th = Inl IndexError"
proof -
  from a sq have pos: "0 < a" "0 < nx" "0 < ny" by (auto intro: Nat.gr0I)
  define kx where "kx = nx div a"
  define n where "n = (nx + a - 1) div a"
  have kx_lo: "kx * a < nx"
  proof -
    have "kx * a \<le> nx" by (simp add: kx_def)
    moreover have "kx * a \<noteq> nx" using a sq dvd_triv_right [of a kx] by auto
    ultimately show ?thesis by simp
  qed
  have kx_hi: "nx < kx * a + a"
    using pos(1) dividend_less_times_div [of a nx] by (simp add: kx_def mult.commute)
  have "kx * a < n * a"
  proof -
    have "nx \<le> n * a"
    proof -
      have "nx + a - 1 < a + (nx + a - 1) div a * a"
        using pos(1) dividend_less_times_div [of a "nx + a - 1"] by (simp add: mult.commute)
      then show ?thesis using pos by (simp add: n_def)
    qed
    with kx_lo show ?thesis by (rule less_le_trans)
  qed
  then have kx_n: "kx < n" by simp
  have n_pos: "0 < (ny + a - 1) div a"
    using pos by (simp add: div_greater_zero_iff)
  have cell: "isl (cell_step fld vlons vlats (int a) th 0 0 (kx * a) ps)" for ps
    using block_value_overrun [OF wf kx_lo kx_hi, of 0]
    by (auto simp: cell_step_def isl_def)
  have row: "isl (then_do (py_range nx (int a)) (\<lambda>ixs.
               for_each ixs (cell_step fld vlons vlats (int a) th 0 0) ps))" for ps
    unfolding py_range_pos [OF pos(1)] then_do_Inr n_def [symmetric]
    by (rule for_each_fails [where x = "kx * a"]) (use kx_n cell in auto)
  have tile: "isl (then_do (py_range ny (int a)) (\<lambda>iys.
          for_each iys
            (\<lambda>iy patches. then_do (py_range nx (int a)) (\<lambda>ixs.
               for_each ixs (cell_step fld vlons vlats (int a) th 0 iy) patches))
            ps))" for ps
    unfolding py_range_pos [OF pos(1)] then_do_Inr
    apply (rule for_each_fails [where x = "0"])
    using n_pos row [unfolded py_range_pos [OF pos(1)] then_do_Inr] by (auto simp: image_iff)
  have "isl (polygon_path fld ny nx vlons vlats (int a) th)"
    unfolding polygon_path_def
    by (rule for_each_fails [where x = 0]) (use tile in \<open>simp_all add: ntile_def\<close>)
  then obtain e where "polygon_path fld ny nx vlons vlats (int a) th = Inl e"
    by (auto simp: isl_def)
  with polygon_path_error [OF this] pos show ?thesis by simp
qed

theorem non_dividing_average_fails_witness:
  "polygon_path (replicate 6 (replicate 5 (replicate 5 1))) 5 5 [] [] (int 3) 0 = Inl IndexError"
proof -
  have h: "wf_field 5 5 (replicate 6 (replicate 5 (replicate 5 1)))"
    by (simp add: wf_field_def ntile_def)
  have a: "(1::nat) < 3" "\<not> (3::nat) dvd 5" by simp_all
  from non_dividing_average_fails [OF h refl a] show ?thesis .
qed

text \<open>
  C6 (polygon emission). For a field of shape \<open>(6, ny, nx)\<close>, vertex grids of shape
  \<open>(6, ny+1, nx+1)\<close> and an \<open>average > 0\<close> dividing \<open>ny\<close> and \<open>nx\<close>, the polygon path
  returns, in cell order, one polygon for each averaged cell whose value \<open>v\<close> has
  \<open>\<bar>v\<bar> \<ge> threshold\<close> and none for the others; the cells are pairwise distinct, so a kept
  cell has exactly one polygon. The polygon carries the cell's value and the corners
  \<open>(iy,ix)\<close>, \<open>(iy,ix+average)\<close>, \<open>(iy+average,ix+average)\<close>, \<open>(iy+average,ix)\<close> of the
  vertex grids, in this order.
\<close>

theorem polygon_emission:
  assumes "wf_field ny nx fld"
    and "wf_field (Suc ny) (Suc nx) vlons" "wf_field (Suc ny) (Suc nx) vlats"
    and "0 < a" "a dvd ny" "a dvd nx"
  shows "polygon_path fld ny nx vlons vlats (int a) threshold =
           Inr (map (cell_polygon fld vlons vlats a)
                  (filter (\<lambda>c. threshold \<le> \<bar>cell_value fld a c\<bar>) (avg_cells ny nx a)))
       \<and> distinct (avg_cells ny nx a)
       \<and> (\<forall>(t, iy, ix) \<in> set (avg_cells ny nx a).
             block_value fld (int a) t iy ix = Inr (cell_value fld a (t, iy, ix)))"
proof -
  have "block_value fld (int a) t iy ix = Inr (cell_value fld a (t, iy, ix))"
    if "(t, iy, ix) \<in> set (avg_cells ny nx a)" for t iy ix
  proof -
    from that obtain ky kx where "t < ntile" "ky < ny div a" "kx < nx div a"
      and "iy = ky * a" "ix = kx * a"
      by (auto simp: avg_cells_def)
    with block_fits [of ky ny a] block_fits [of kx nx a]
    have "t < ntile" "iy + a \<le> ny" "ix + a \<le> nx" by simp_all
    from block_value_wf [OF assms(1) this] show ?thesis
      by (simp add: cell_value_def)
  qed
  with polygon_path_wf [OF assms] avg_cells_distinct [OF assms(4)] show ?thesis
    by auto
qed

theorem polygon_emission_witness:
  "polygon_path field2 2 2 vlons2 vlats2 (int 2) 10 =
     Inr (map (cell_polygon field2 vlons2 vlats2 2)
            (filter (\<lambda>c. 10 \<le> \<bar>cell_value field2 2 c\<bar>) (avg_cells 2 2 2)))
   \<and> distinct (avg_cells 2 2 2)
   \<and> block_value field2 (int 2) 3 0 0 = Inr (cell_value field2 2 (3, 0, 0))
   \<and> polygon_path field2 2 2 vlons2 vlats2 (int 2) 10 =
        Inr [\<lparr>xy = [(0, 0), (2, 0), (2, 2), (0, 2)], val = 21 / 2\<rparr>,
             \<lparr>xy = [(0, 0), (2, 0), (2, 2), (0, 2)], val = 29 / 2\<rparr>,
             \<lparr>xy = [(0, 0), (2, 0), (2, 2), (0, 2)], val = 37 / 2\<rparr>,
             \<lparr>xy = [(0, 0), (2, 0), (2, 2), (0, 2)], val = 45 / 2\<rparr>]"
proof -
  have h: "wf_field 2 2 field2" "wf_field (Suc 2) (Suc 2) vlons2" "wf_field (Suc 2) (Suc 2) vlats2"
    by (simp_all add: wf_field_def ntile_def field2_def vlons2_def vlats2_def)
  have a: "(0::nat) < 2" "(2::nat) dvd 2" by simp_all
  have c: "(3, 0, 0) \<in> set (avg_cells 2 2 2)"
    by (simp add: avg_cells_def ntile_def)
  have e: "polygon_path field2 2 2 vlons2 vlats2 (int 2) 10 =
        Inr [\<lparr>xy = [(0, 0), (2, 0), (2, 2), (0, 2)], val = 21 / 2\<rparr>,
             \<lparr>xy = [(0, 0), (2, 0), (2, 2), (0, 2)], val = 29 / 2\<rparr>,
             \<lparr>xy = [(0, 0), (2, 0), (2, 2), (0, 2)], val = 37 / 2\<rparr>,
             \<lparr>xy = [(0, 0), (2, 0), (2, 2), (0, 2)], val = 45 / 2\<rparr>]"
    by code_simp
  from polygon_emission [OF h a a(2), of 10] c e show ?thesis by blast
qed

text \<open>
  C8 (averaging by 1 is the identity). For a field of shape \<open>(6, ny, nx)\<close> and
  \<open>average = 1\<close>, the value of every cell is the field value of that cell, the
  averaged values in cell order are the entries of the field in array order, and the
  values of the emitted polygons are the entries that pass the threshold, in order.
\<close>

theorem average_one_identity:
  assumes wf: "wf_field ny nx fld"
    and vl: "wf_field (Suc ny) (Suc nx) vlons" "wf_field (Suc ny) (Suc nx) vlats"
  shows "(\<forall>t<ntile. \<forall>iy<ny. \<forall>ix<nx. block_value fld 1 t iy ix = Inr (fld ! t ! iy ! ix))
       \<and> map (cell_value fld 1) (avg_cells ny nx 1) = flatten3 fld
       \<and> (\<exists>ps. polygon_path fld ny nx vlons vlats 1 th = Inr ps
               \<and> map val ps = filter (\<lambda>v. th \<le> \<bar>v\<bar>) (flatten3 fld))"
proof -
  have "polygon_path fld ny nx vlons vlats (int 1) th =
           Inr (map (cell_polygon fld vlons vlats 1)
                  (filter (\<lambda>c. th \<le> \<bar>cell_value fld 1 c\<bar>) (avg_cells ny nx 1)))"
    by (rule polygon_path_wf [OF wf vl]) simp_all
  moreover have "map val (map (cell_polygon fld vlons vlats 1)
                  (filter (\<lambda>c. th \<le> \<bar>cell_value fld 1 c\<bar>) (avg_cells ny nx 1)))
         = filter (\<lambda>v. th \<le> \<bar>v\<bar>) (map (cell_value fld 1) (avg_cells ny nx 1))"
    by (simp add: filter_map comp_def cell_polygon_def split_def)
  ultimately show ?thesis
    by (simp add: cell_value_one [OF wf] averaged_one_flatten [OF wf])
qed

theorem average_one_identity_witness:
  "block_value field2 1 4 1 0 = Inr (field2 ! 4 ! 1 ! 0)
   \<and> map (cell_value field2 1) (avg_cells 2 2 1) = flatten3 field2
   \<and> (\<exists>ps. polygon_path field2 2 2 vlons2 vlats2 1 20 = Inr ps
           \<and> map val ps = filter (\<lambda>v. 20 \<le> \<bar>v\<bar>) (flatten3 field2))"
proof -
  have h: "wf_field 2 2 field2" "wf_field (Suc 2) (Suc 2) vlons2" "wf_field (Suc 2) (Suc 2) vlats2"
    by (simp_all add: wf_field_def ntile_def field2_def vlons2_def vlats2_def)
  have c: "(4::nat) < ntile" "(1::nat) < 2" "(0::nat) < 2" by (simp_all add: ntile_def)
  from average_one_identity [OF h, of 20] c show ?thesis by blast
qed

section \<open>Properties of the value range\<close>





section \<open>The cross path: arrays and placements\<close>

text \<open>An array built by \<open>mk\<close> is read back index by index; an assignment to a block
  inside the array changes exactly the cells of the block.\<close>

lemma mk_length [simp]: "length (mk m n f) = m"
  by (simp add: mk_def)

lemma mk_row_length [simp]: "i < m \<Longrightarrow> length (mk m n f ! i) = n"
  by (simp add: mk_def)

lemma mk_nth [simp]: "i < m \<Longrightarrow> j < n \<Longrightarrow> mk m n f ! i ! j = f i j"
  by (simp add: mk_def)

lemma mk_cong: "(\<And>i j. i < m \<Longrightarrow> j < n \<Longrightarrow> f i j = g i j) \<Longrightarrow> mk m n f = mk m n g"
  by (simp add: mk_def)

lemma mk_const: "mk m n (\<lambda>i j. c) = replicate m (replicate n c)"
  by (simp add: mk_def map_replicate_const)

lemma cross_init_mk: "cross_init m n = mk m n (\<lambda>i j. PosInf)"
  by (simp add: cross_init_def mk_def comp_def)

lemma broadcast_to_same:
  "broadcast_to (p, q) ((p, q), b) = Inr (mk p q (\<lambda>i j. b ! i ! j))"
proof -
  have "mk p q (\<lambda>i j. b ! (if p = 1 then 0 else i) ! (if q = 1 then 0 else j)) = mk p q (\<lambda>i j. b ! i ! j)"
    by (rule mk_cong) auto
  then show ?thesis by (simp add: broadcast_to_def broadcastable_def)
qed

lemma assign_block_mk:
  assumes "r1 \<le> R" "c1 \<le> C" "r0 \<le> r1" "c0 \<le> c1" "s = (r1 - r0, c1 - c0)"
  shows "assign_block (R, C) (mk R C f) (r0, r1) (c0, c1) (s, b) =
           Inr (mk R C (\<lambda>i j. if r0 \<le> i \<and> i < r1 \<and> c0 \<le> j \<and> j < c1
                               then Val (b ! (i - r0) ! (j - c0)) else f i j))"
proof -
  from assms have m: "min r0 R = r0" "min r1 R = r1" "min c0 C = c0" "min c1 C = c1"
    by simp_all
  show ?thesis
    unfolding assign_block_def Let_def fst_conv snd_conv m assms(5) broadcast_to_same then_do_Inr
    by (rule arg_cong [where f = Inr], rule mk_cong) auto
qed

text \<open>Quarter turns of a square tile, entry by entry.\<close>

lemma rot90_shape_square: "fst (rot90 ((n, n), m) k) = (n, n)"
  by (simp add: rot90_def transpose2_def)

lemma rot90_0: "snd (rot90 (s, m) 0) = m"
  by (simp add: rot90_def)

lemma rot90_3_nth:
  assumes "i < q" "j < p"
  shows "snd (rot90 ((p, q), m) 3) ! i ! j = m ! (p - 1 - j) ! i"
  using assms by (simp add: rot90_def transpose2_def flip1_def rev_nth)

lemma rot90_1_nth:
  assumes "i < q" "j < p" "length m = p" "length (m ! j) = q"
  shows "snd (rot90 ((p, q), m) 1) ! i ! j = m ! j ! (q - 1 - i)"
  using assms by (simp add: rot90_def transpose2_def flip1_def rev_nth)

lemma place_mk:
  assumes "k < length fld" "r1 \<le> 3 * n" "c1 \<le> 4 * n" "r1 = r0 + n" "c1 = c0 + n"
  shows "place fld n n (k, turns, (r0, r1), (c0, c1)) (mk (3 * n) (4 * n) f) =
           Inr (mk (3 * n) (4 * n)
                 (\<lambda>i j. if r0 \<le> i \<and> i < r1 \<and> c0 \<le> j \<and> j < c1
                         then written fld n n (k, turns, (r0, r1), (c0, c1)) i j else f i j))"
proof -
  obtain b where r: "rot90 ((n, n), fld ! k) turns = ((n, n), b)"
    using rot90_shape_square [of n "fld ! k" turns] by (cases "rot90 ((n, n), fld ! k) turns") auto
  from assms show ?thesis
    by (simp add: place_def tile_def r written_def assign_block_mk cong: if_cong)
qed

lemma build_cross_steps:
  assumes "length fld = ntile"
  shows "build_cross fld n n =
     Inr (mk (3 * n) (4 * n) (\<lambda>i j.
       if i < n \<and> n \<le> j \<and> j < 2 * n then written fld n n (5, 0, (0, n), (n, 2 * n)) i j
       else if n \<le> i \<and> i < 2 * n \<and> j < n then written fld n n (4, 1, (n, 2 * n), (0, n)) i j
       else if n \<le> i \<and> i < 2 * n \<and> 3 * n \<le> j \<and> j < 4 * n
         then written fld n n (3, 1, (n, 2 * n), (3 * n, 4 * n)) i j
       else if 2 * n \<le> i \<and> i < 3 * n \<and> n \<le> j \<and> j < 2 * n
         then written fld n n (2, 3, (2 * n, 3 * n), (n, 2 * n)) i j
       else if n \<le> i \<and> i < 2 * n \<and> 2 * n \<le> j \<and> j < 3 * n
         then written fld n n (1, 0, (n, 2 * n), (2 * n, 3 * n)) i j
       else if n \<le> i \<and> i < 2 * n \<and> n \<le> j \<and> j < 2 * n
         then written fld n n (0, 0, (n, 2 * n), (n, 2 * n)) i j
       else PosInf))"
  using assms
  by (simp add: build_cross_def placements_def cross_init_mk place_mk ntile_def cong: if_cong)

lemma written_0:
  "written fld n n (k, 0, (r0, r1), (c0, c1)) i j = Val (fld ! k ! (i - r0) ! (j - c0))"
  by (simp add: written_def rot90_0)

lemma written_3:
  assumes "r0 \<le> i" "i < r0 + n" "c0 \<le> j" "j < c0 + n"
  shows "written fld n n (k, 3, (r0, r1), (c0, c1)) i j = Val (fld ! k ! (n - 1 - (j - c0)) ! (i - r0))"
  using assms by (simp add: written_def rot90_3_nth)

lemma written_1:
  assumes "wf_field n n fld" "k < ntile" "r0 \<le> i" "i < r0 + n" "c0 \<le> j" "j < c0 + n"
  shows "written fld n n (k, Suc 0, (r0, r1), (c0, c1)) i j = Val (fld ! k ! (j - c0) ! (n - 1 - (i - r0)))"
proof -
  from assms have "i - r0 < n" "j - c0 < n" by simp_all
  moreover from this wf_field_lengths [OF assms(1,2)]
  have "length (fld ! k) = n" "length (fld ! k ! (j - c0)) = n" by simp_all
  ultimately show ?thesis
    using rot90_1_nth [of "i - r0" n "j - c0" n "fld ! k"] by (simp add: written_def)
qed

lemma build_cross_square:
  assumes wf: "wf_field n n fld"
  shows "build_cross fld n n = Inr (mk (3 * n) (4 * n) (cross_at fld n))"
proof -
  from wf have len: "length fld = ntile" by (simp add: wf_field_def)
  show ?thesis
    unfolding build_cross_steps [OF len]
    by (rule arg_cong [where f = Inr], rule mk_cong)
      (auto simp: cross_at_def written_0 written_3 written_1 [OF wf] ntile_def)
qed

text \<open>For tiles that are not square the first placement already fails: a slice of shape
  \<open>(ny, nx)\<close> cannot be broadcast to a block of shape \<open>(nx, ny)\<close>.\<close>

lemma build_cross_not_square:
  assumes "0 < length fld" "ny \<noteq> nx"
  shows "build_cross fld ny nx = Inl ValueError"
proof -
  from assms(2) have "\<not> broadcastable (nx, ny) (ny, nx)"
    by (auto simp: broadcastable_def)
  then have "assign_block (3 * nx, 4 * ny) a (nx, 2 * nx) (ny, 2 * ny) ((ny, nx), b) = Inl ValueError"
    for a b
    by (simp add: assign_block_def broadcast_to_def)
  with assms(1) show ?thesis
    by (simp add: build_cross_def placements_def place_def tile_def rot90_def)
qed

text \<open>The rows of the placement table, their blocks, and what the result holds there.\<close>

lemma mk_rows: "\<forall>row \<in> set (mk m n f). length row = n"
  by (simp add: mk_def)

lemma placement_cases:
  assumes "p \<in> set (placements ny nx)"
  obtains "p = (0, 0, (nx, 2 * nx), (ny, 2 * ny))"
    | "p = (1, 0, (nx, 2 * nx), (2 * ny, 3 * ny))"
    | "p = (2, 3, (2 * nx, 3 * nx), (ny, 2 * ny))"
    | "p = (3, 1, (nx, 2 * nx), (3 * ny, 4 * ny))"
    | "p = (4, 1, (nx, 2 * nx), (0, ny))"
    | "p = (5, 0, (0, nx), (ny, 2 * ny))"
  using assms by (auto simp: placements_def)

lemma placements_nth:
  "placements ny nx ! 0 = (0, 0, (nx, 2 * nx), (ny, 2 * ny))"
  "placements ny nx ! Suc 0 = (1, 0, (nx, 2 * nx), (2 * ny, 3 * ny))"
  "placements ny nx ! 2 = (2, 3, (2 * nx, 3 * nx), (ny, 2 * ny))"
  "placements ny nx ! 3 = (3, 1, (nx, 2 * nx), (3 * ny, 4 * ny))"
  "placements ny nx ! 4 = (4, 1, (nx, 2 * nx), (0, ny))"
  "placements ny nx ! 5 = (5, 0, (0, nx), (ny, 2 * ny))"
  by (simp_all add: placements_def nth_Cons')

lemma less_6_cases:
  assumes "k < (6::nat)"
  obtains "k = 0" | "k = 1" | "k = 2" | "k = 3" | "k = 4" | "k = 5"
  using assms by arith

lemma placements_disjoint:
  assumes "k < length (placements ny nx)" "l < length (placements ny nx)" "k \<noteq> l"
  shows "block_cells (placements ny nx ! k) \<inter> block_cells (placements ny nx ! l) = {}"
proof -
  from assms have "k < 6" "l < 6" by (simp_all add: placements_def)
  then show ?thesis using assms(3)
    by (elim less_6_cases) (auto simp: placements_nth block_cells_def)
qed

lemma placements_in_range:
  assumes "p \<in> set (placements ny nx)"
  shows "block_cells p \<subseteq> {0..<3 * nx} \<times> {0..<4 * ny}"
  using assms by (elim placement_cases) (auto simp: block_cells_def)

lemma cross_at_written:
  assumes wf: "wf_field n n fld" and p: "p \<in> set (placements n n)" and c: "(i, j) \<in> block_cells p"
  shows "cross_at fld n i j = written fld n n p i j"
  using p c
  by (elim placement_cases)
    (auto simp: block_cells_def cross_at_def written_0 written_3 written_1 [OF wf] ntile_def)

lemma cross_at_outside:
  assumes "(i, j) \<notin> (\<Union>p \<in> set (placements n n). block_cells p)"
  shows "cross_at fld n i j = PosInf"
  using assms by (auto simp: placements_def block_cells_def cross_at_def)

section \<open>Properties of the cross path\<close>

text \<open>
  C5 (cross layout). For a field of six square tiles (\<open>ny = nx > 0\<close>, the shape every
  cube-sphere field has) the cross path returns an array of \<open>3 nx\<close> rows and \<open>4 ny\<close>
  columns. The array starts out as \<^verbatim>\<open>np.inf\<close> everywhere; in the result, cell
  \<open>(nx, ny)\<close> is cell \<open>(0, 0)\<close> of tile 0, cell \<open>(2 nx - 1, 3 ny - 1)\<close> is cell
  \<open>(nx - 1, ny - 1)\<close> of tile 1, and every cell outside the six destination blocks is
  still \<^verbatim>\<open>np.inf\<close>.
\<close>

theorem cross_atlas_layout:
  assumes "wf_field ny nx fld" "ny = nx" "0 < nx"
  shows "cross_init (3 * nx) (4 * ny) = replicate (3 * nx) (replicate (4 * ny) PosInf)
       \<and> (\<exists>atlas. build_cross fld ny nx = Inr atlas
            \<and> length atlas = 3 * nx \<and> (\<forall>row \<in> set atlas. length row = 4 * ny)
            \<and> atlas ! nx ! ny = Val (fld ! 0 ! 0 ! 0)
            \<and> atlas ! (2 * nx - 1) ! (3 * ny - 1) = Val (fld ! 1 ! (nx - 1) ! (ny - 1))
            \<and> (\<forall>i<3 * nx. \<forall>j<4 * ny.
                  (i, j) \<notin> (\<Union>p \<in> set (placements ny nx). block_cells p) \<longrightarrow> atlas ! i ! j = PosInf))"
proof -
  let ?atlas = "mk (3 * nx) (4 * nx) (cross_at fld nx)"
  from assms have b: "build_cross fld ny nx = Inr ?atlas"
    by (simp add: build_cross_square)
  have "?atlas ! nx ! nx = Val (fld ! 0 ! 0 ! 0)"
    using assms(3) by (simp add: cross_at_def)
  moreover have "?atlas ! (2 * nx - 1) ! (3 * nx - 1) = Val (fld ! 1 ! (nx - 1) ! (nx - 1))"
  proof -
    from assms(3) have "2 * nx - 1 < 3 * nx" "3 * nx - 1 < 4 * nx" by simp_all
    then have "?atlas ! (2 * nx - 1) ! (3 * nx - 1) = cross_at fld nx (2 * nx - 1) (3 * nx - 1)"
      by (rule mk_nth)
    also have "\<dots> = Val (fld ! 1 ! (2 * nx - 1 - nx) ! (3 * nx - 1 - 2 * nx))"
      using assms(3) by (auto simp: cross_at_def)
    also have "2 * nx - 1 - nx = nx - 1" by simp
    also have "3 * nx - 1 - 2 * nx = nx - 1" by simp
    finally show ?thesis .
  qed
  moreover have "?atlas ! i ! j = PosInf"
    if "i < 3 * nx" "j < 4 * nx" "(i, j) \<notin> (\<Union>p \<in> set (placements nx nx). block_cells p)" for i j
    using that by (simp add: cross_at_outside)
  ultimately show ?thesis
    using b assms(2) by (simp add: cross_init_mk mk_const mk_rows)
qed

theorem cross_atlas_layout_witness:
  "cross_init (3 * 2) (4 * 2) = replicate (3 * 2) (replicate (4 * 2) PosInf)
   \<and> (\<exists>atlas. build_cross field2 2 2 = Inr atlas
         \<and> length atlas = 3 * 2
         \<and> atlas ! 2 ! 2 = Val (field2 ! 0 ! 0 ! 0)
         \<and> atlas ! (2 * 2 - 1) ! (3 * 2 - 1) = Val (field2 ! 1 ! (2 - 1) ! (2 - 1))
         \<and> atlas ! 5 ! 7 = PosInf)
   \<and> build_cross field2 2 2 =
       Inr [[PosInf, PosInf, Val 21, Val 22, PosInf, PosInf, PosInf, PosInf],
            [PosInf, PosInf, Val 23, Val 24, PosInf, PosInf, PosInf, PosInf],
            [Val 18, Val 20, Val 1, Val 2, Val 5, Val 6, Val 14, Val 16],
            [Val 17, Val 19, Val 3, Val 4, Val 7, Val 8, Val 13, Val 15],
            [PosInf, PosInf, Val 11, Val 9, PosInf, PosInf, PosInf, PosInf],
            [PosInf, PosInf, Val 12, Val 10, PosInf, PosInf, PosInf, PosInf]]"
proof -
  have h: "wf_field 2 2 field2" "(2::nat) = 2" "(0::nat) < 2"
    by (simp_all add: wf_field_def ntile_def field2_def)
  have o: "(5::nat) < 3 * 2" "(7::nat) < 4 * 2"
    "(5, 7) \<notin> (\<Union>p \<in> set (placements 2 2). block_cells p)"
    by (simp_all add: placements_def block_cells_def)
  have e: "build_cross field2 2 2 =
       Inr [[PosInf, PosInf, Val 21, Val 22, PosInf, PosInf, PosInf, PosInf],
            [PosInf, PosInf, Val 23, Val 24, PosInf, PosInf, PosInf, PosInf],
            [Val 18, Val 20, Val 1, Val 2, Val 5, Val 6, Val 14, Val 16],
            [Val 17, Val 19, Val 3, Val 4, Val 7, Val 8, Val 13, Val 15],
            [PosInf, PosInf, Val 11, Val 9, PosInf, PosInf, PosInf, PosInf],
            [PosInf, PosInf, Val 12, Val 10, PosInf, PosInf, PosInf, PosInf]]"
    by code_simp
  from cross_atlas_layout [OF h] o e show ?thesis by blast
qed

text \<open>
  C2 (rotation of tile 2). The claim has two parts. The first holds: tile 2 is placed
  after \<^verbatim>\<open>np.rot90(.,3)\<close>, and destination cell \<open>(2 nx, ny)\<close> is cell \<open>(ny - 1, 0)\<close> of
  tile 2. The second gives \<open>[[2,4],[1,3]]\<close> as the rotation of \<open>[[1,2],[3,4]]\<close> by 270
  degrees; that matrix is the rotation by 90 degrees, and three quarter turns do not
  produce it.
\<close>

theorem rot90_270_example:
  "rot90 ((2, 2), [[1, 2], [3, 4::real]]) 3 \<noteq> ((2, 2), [[2, 4], [1, 3]])"
  by code_simp

text \<open>
  C2, as the source behaves: for square tiles, destination cell \<open>(2 nx, ny)\<close> of the
  cross array is cell \<open>(ny - 1, 0)\<close> of tile 2, and three counter-clockwise quarter
  turns take \<open>[[1,2],[3,4]]\<close> to \<open>[[3,1],[4,2]]\<close>.
\<close>

theorem tile2_rotation:
  assumes "wf_field ny nx fld" "ny = nx" "0 < nx"
  shows "(\<exists>atlas. build_cross fld ny nx = Inr atlas
            \<and> atlas ! (2 * nx) ! ny = Val (fld ! 2 ! (ny - 1) ! 0))
       \<and> rot90 ((2, 2), [[1, 2], [3, 4::real]]) 3 = ((2, 2), [[3, 1], [4, 2]])"
proof -
  from assms have "build_cross fld ny nx = Inr (mk (3 * nx) (4 * nx) (cross_at fld nx))"
    by (simp add: build_cross_square)
  moreover have "mk (3 * nx) (4 * nx) (cross_at fld nx) ! (2 * nx) ! nx = Val (fld ! 2 ! (nx - 1) ! 0)"
    using assms(3) by (simp add: cross_at_def)
  moreover have "rot90 ((2, 2), [[1, 2], [3, 4::real]]) 3 = ((2, 2), [[3, 1], [4, 2]])"
    by code_simp
  ultimately show ?thesis using assms(2) by simp
qed

theorem tile2_rotation_witness:
  "(\<exists>atlas. build_cross field2 2 2 = Inr atlas
       \<and> atlas ! (2 * 2) ! 2 = Val (field2 ! 2 ! (2 - 1) ! 0))
   \<and> rot90 ((2, 2), [[1, 2], [3, 4::real]]) 3 = ((2, 2), [[3, 1], [4, 2]])"
proof -
  have h: "wf_field 2 2 field2" "(2::nat) = 2" "(0::nat) < 2"
    by (simp_all add: wf_field_def ntile_def field2_def)
  from tile2_rotation [OF h] show ?thesis .
qed

text \<open>
  C10 (destination blocks). The six destination blocks of the placement table are
  pairwise disjoint and lie inside the \<open>3 nx \<times> 4 ny\<close> array, for every \<open>nx\<close> and \<open>ny\<close>;
  and for a field of square tiles every cell of every block holds, in the result, the
  value its own placement stored there: no later placement overwrites it.
\<close>

theorem cross_blocks_disjoint:
  "(\<forall>k<length (placements ny nx). \<forall>l<length (placements ny nx).
       k \<noteq> l \<longrightarrow> block_cells (placements ny nx ! k) \<inter> block_cells (placements ny nx ! l) = {})
   \<and> (\<forall>p \<in> set (placements ny nx). block_cells p \<subseteq> {0..<3 * nx} \<times> {0..<4 * ny})
   \<and> (wf_field ny nx fld \<and> ny = nx \<longrightarrow>
        (\<exists>atlas. build_cross fld ny nx = Inr atlas
           \<and> (\<forall>p \<in> set (placements ny nx). \<forall>(i, j) \<in> block_cells p.
                 atlas ! i ! j = written fld ny nx p i j)))"
proof (intro conjI impI allI ballI)
  fix k l assume "k < length (placements ny nx)" "l < length (placements ny nx)" "k \<noteq> l"
  then show "block_cells (placements ny nx ! k) \<inter> block_cells (placements ny nx ! l) = {}"
    by (rule placements_disjoint)
next
  fix p assume "p \<in> set (placements ny nx)"
  then show "block_cells p \<subseteq> {0..<3 * nx} \<times> {0..<4 * ny}"
    by (rule placements_in_range)
next
  assume a: "wf_field ny nx fld \<and> ny = nx"
  then have wf: "wf_field nx nx fld" and sq: "ny = nx" by auto
  have "mk (3 * nx) (4 * nx) (cross_at fld nx) ! i ! j = written fld nx nx p i j"
    if "p \<in> set (placements nx nx)" "(i, j) \<in> block_cells p" for p i j
  proof -
    from placements_in_range [OF that(1)] that(2) have "i < 3 * nx" "j < 4 * nx" by auto
    with cross_at_written [OF wf that] show ?thesis by simp
  qed
  with build_cross_square [OF wf] sq
  show "\<exists>atlas. build_cross fld ny nx = Inr atlas
           \<and> (\<forall>p \<in> set (placements ny nx). \<forall>(i, j) \<in> block_cells p.
                 atlas ! i ! j = written fld ny nx p i j)"
    by auto
qed

theorem cross_blocks_disjoint_witness:
  "block_cells (placements 2 2 ! 0) \<inter> block_cells (placements 2 2 ! 2) = {}
   \<and> block_cells (placements 2 2 ! 3) \<subseteq> {0..<3 * 2} \<times> {0..<4 * 2}
   \<and> (\<exists>atlas. build_cross field2 2 2 = Inr atlas
         \<and> atlas ! 2 ! 7 = written field2 2 2 (placements 2 2 ! 3) 2 7)"
proof -
  have k: "0 < length (placements 2 2)" "2 < length (placements 2 2)" "(0::nat) \<noteq> 2"
    by (simp_all add: placements_def)
  have p: "placements 2 2 ! 3 \<in> set (placements 2 2)"
    by (simp add: placements_def)
  have c: "(2, 7) \<in> block_cells (placements 2 2 ! 3)"
    by (simp add: placements_def block_cells_def)
  have h: "wf_field 2 2 field2 \<and> (2::nat) = 2"
    by (simp add: wf_field_def ntile_def field2_def)
  from cross_blocks_disjoint [of 2 2 field2] k p c h show ?thesis by blast
qed



section \<open>Field assembly: the two loops\<close>

text \<open>A step of either loop that succeeds keeps the shape fixed by the first tile and
  shows that the slice it stored could be broadcast to that shape; a step that fails,
  fails with ValueError.\<close>

lemma for_each_error_inv:
  assumes "for_each xs body s = Inl e" "I s"
    and "\<And>x s s'. x \<in> set xs \<Longrightarrow> I s \<Longrightarrow> body x s = Inr s' \<Longrightarrow> I s'"
  shows "\<exists>x \<in> set xs. \<exists>s'. I s' \<and> body x s' = Inl e"
  using assms
proof (induction xs arbitrary: s)
  case Nil
  then show ?case by simp
next
  case (Cons y ys)
  show ?case
  proof (cases "body y s")
    case (Inl e')
    with Cons.prems show ?thesis by auto
  next
    case (Inr s')
    with Cons.prems have "for_each ys body s' = Inl e" "I s'" by auto
    with Cons.IH [of s'] Cons.prems(3) show ?thesis by auto
  qed
qed

lemma broadcast_to_error: "broadcast_to s a = Inl e \<Longrightarrow> e = ValueError"
  by (simp add: broadcast_to_def split: if_splits)

lemma broadcast_to_Inr: "broadcast_to s a = Inr rows \<Longrightarrow> broadcastable s (fst a)"
  by (simp add: broadcast_to_def split: if_splits)

lemma read_step_error:
  assumes "read_step srcs k st = Inl e" "k < length srcs"
  shows "e = ValueError"
  using assms
  by (auto simp: read_step_def read_slice_def Let_def dest!: then_do_error dest: broadcast_to_error)

lemma read_step_Inr:
  assumes "read_step srcs k st = Inr st'" "k < length srcs"
  shows "fst st' = (if k = 0 then fst (srcs ! 0) else fst st)"
    and "broadcastable (fst st') (fst (srcs ! k))"
    and "length (snd st') = (if k = 0 then ntile else length (snd st))"
proof -
  from assms obtain rows
    where r: "broadcast_to (if k = 0 then fst (srcs ! 0) else fst st) (srcs ! k) = Inr rows"
      and st': "st' = (if k = 0 then fst (srcs ! 0) else fst st,
                     (if k = 0 then replicate ntile (mk (fst (fst (srcs ! 0))) (snd (fst (srcs ! 0))) (\<lambda>i j. 0))
                      else snd st)[k := rows])"
    by (auto simp: read_step_def read_slice_def Let_def then_do_def split: sum.splits if_splits)
  from st' show "fst st' = (if k = 0 then fst (srcs ! 0) else fst st)" by simp
  from r st' show "broadcastable (fst st') (fst (srcs ! k))" by (auto dest: broadcast_to_Inr)
  from st' show "length (snd st') = (if k = 0 then ntile else length (snd st))" by simp
qed

lemma read_loop_Inr:
  assumes "for_each ks (read_step srcs) st = Inr st'" "0 \<notin> set ks" "\<forall>k \<in> set ks. k < length srcs"
  shows "fst st' = fst st \<and> length (snd st') = length (snd st)
       \<and> (\<forall>k \<in> set ks. broadcastable (fst st) (fst (srcs ! k)))"
  using assms
proof (induction ks arbitrary: st)
  case Nil
  then show ?case by simp
next
  case (Cons k ks)
  from Cons.prems obtain st1 where 1: "read_step srcs k st = Inr st1"
    and 2: "for_each ks (read_step srcs) st1 = Inr st'"
    by (auto split: sum.splits)
  from Cons.prems have k: "k \<noteq> 0" "k < length srcs" by auto
  from read_step_Inr [OF 1 k(2)] k have "fst st1 = fst st" "broadcastable (fst st) (fst (srcs ! k))"
    "length (snd st1) = length (snd st)" by simp_all
  with Cons.IH [OF 2] Cons.prems show ?case by simp
qed

lemma upt_ntile: "[0..<ntile] = 0 # [1..<ntile]"
  by (simp add: ntile_def upt_conv_Cons)

lemma read_all_Inr:
  assumes "for_each [0..<ntile] (read_step srcs) st = Inr st'" "length srcs = ntile"
  shows "fst st' = fst (srcs ! 0) \<and> length (snd st') = ntile
       \<and> (\<forall>k<ntile. broadcastable (fst (srcs ! 0)) (fst (srcs ! k)))"
proof -
  from assms(1) obtain st1 where 1: "read_step srcs 0 st = Inr st1"
    and 2: "for_each [1..<ntile] (read_step srcs) st1 = Inr st'"
    unfolding upt_ntile by (auto split: sum.splits)
  from assms(2) have 0: "0 < length srcs" by (simp add: ntile_def)
  from read_step_Inr [OF 1 0] have st1: "fst st1 = fst (srcs ! 0)" "length (snd st1) = ntile"
    "broadcastable (fst (srcs ! 0)) (fst (srcs ! 0))" by simp_all
  from read_loop_Inr [OF 2] assms(2) st1
  have "fst st' = fst (srcs ! 0)" "length (snd st') = ntile"
    "\<forall>k \<in> set [1..<ntile]. broadcastable (fst (srcs ! 0)) (fst (srcs ! k))" by simp_all
  moreover have "k = 0 \<or> k \<in> set [1..<ntile]" if "k < ntile" for k
    using that by auto
  ultimately show ?thesis using st1(3) by blast
qed

lemma read_all_error:
  assumes "for_each [0..<ntile] (read_step srcs) st = Inl e" "length srcs = ntile"
  shows "e = ValueError"
proof -
  from for_each_error [OF assms(1)] obtain k s' where "k < ntile" "read_step srcs k s' = Inl e"
    by auto
  with assms(2) show ?thesis by (auto dest: read_step_error)
qed

lemma np_sub_error: "np_sub a b = Inl e \<Longrightarrow> e = ValueError"
  unfolding np_sub_def broadcast_shape_def
  by (auto dest!: then_do_error dest: broadcast_to_error split: if_splits)

lemma np_sub_Inr:
  assumes "np_sub a b = Inr d"
  shows "fst d = (if fst (fst a) = 1 then fst (fst b) else fst (fst a),
                  if snd (fst a) = 1 then snd (fst b) else snd (fst a))"
    and "(fst (fst a) = fst (fst b) \<or> fst (fst a) = 1 \<or> fst (fst b) = 1)"
    and "(snd (fst a) = snd (fst b) \<or> snd (fst a) = 1 \<or> snd (fst b) = 1)"
  using assms
  by (auto simp: np_sub_def broadcast_shape_def then_do_def split: if_splits sum.splits)

lemma base_step_error:
  assumes "base_step bsrcs k st = Inl e" "k < length bsrcs" "k < length (snd st)"
  shows "e = ValueError"
  using assms unfolding base_step_def read_slice_def tile_def
  by (auto dest!: then_do_error dest: broadcast_to_error np_sub_error split: if_splits)

lemma base_step_Inr:
  assumes "base_step bsrcs k st = Inr st'" "k < length bsrcs"
  shows "fst st' = fst st" and "length (snd st') = length (snd st)"
    and "broadcastable (fst st) (fst (bsrcs ! k))"
proof -
  from assms obtain d rows where k: "k < length (snd st)"
    and d: "np_sub (fst st, snd st ! k) (bsrcs ! k) = Inr d"
    and r: "broadcast_to (fst st) d = Inr rows"
    and st': "st' = (fst st, (snd st)[k := rows])"
    by (auto simp: base_step_def read_slice_def tile_def then_do_def split: sum.splits if_splits)
  from st' show "fst st' = fst st" "length (snd st') = length (snd st)" by simp_all
  from np_sub_Inr [OF d] broadcast_to_Inr [OF r]
  show "broadcastable (fst st) (fst (bsrcs ! k))"
    by (auto simp: broadcastable_def split: if_splits)
qed

lemma base_loop_Inr:
  assumes "for_each ks (base_step bsrcs) st = Inr st'" "\<forall>k \<in> set ks. k < length bsrcs"
  shows "fst st' = fst st \<and> (\<forall>k \<in> set ks. broadcastable (fst st) (fst (bsrcs ! k)))"
  using assms
proof (induction ks arbitrary: st)
  case Nil
  then show ?case by simp
next
  case (Cons k ks)
  from Cons.prems obtain st1 where 1: "base_step bsrcs k st = Inr st1"
    and 2: "for_each ks (base_step bsrcs) st1 = Inr st'"
    by (auto split: sum.splits)
  from Cons.prems have k: "k < length bsrcs" by auto
  from base_step_Inr [OF 1 k] Cons.IH [OF 2] Cons.prems show ?case by simp
qed

lemma base_loop_error:
  assumes "for_each [0..<ntile] (base_step bsrcs) st = Inl e"
    and "length bsrcs = ntile" "length (snd st) = ntile"
  shows "e = ValueError"
proof -
  have "\<exists>k \<in> set [0..<ntile]. \<exists>s'. length (snd s') = ntile \<and> base_step bsrcs k s' = Inl e"
    using assms(1,3)
  proof (rule for_each_error_inv [where I = "\<lambda>s. length (snd s) = ntile"])
    fix k s s' assume "k \<in> set [0..<ntile]" "length (snd s) = ntile" "base_step bsrcs k s = Inr s'"
    with assms(2) show "length (snd s') = ntile" by (auto dest: base_step_Inr(2))
  qed
  with assms(2) show ?thesis by (auto dest: base_step_error)
qed

text \<open>Conversely, slices that can all be broadcast are all stored, and the field keeps
  its shape.\<close>

lemma for_each_succeeds_inv:
  assumes "I s"
    and "\<And>x s. x \<in> set xs \<Longrightarrow> I s \<Longrightarrow> \<exists>s'. body x s = Inr s' \<and> I s'"
  shows "\<exists>s'. for_each xs body s = Inr s' \<and> I s'"
  using assms
proof (induction xs arbitrary: s)
  case Nil
  then show ?case by simp
next
  case (Cons y ys)
  from Cons.prems obtain s1 where 1: "body y s = Inr s1" "I s1" by fastforce
  from Cons.IH [OF 1(2)] Cons.prems(2) obtain s' where "for_each ys body s1 = Inr s'" "I s'"
    by fastforce
  with 1 show ?case by simp
qed

lemma wf_field_update:
  assumes "wf_field ny nx fld" "k < ntile"
  shows "wf_field ny nx (fld[k := mk ny nx f])"
proof -
  have "t = mk ny nx f \<or> t \<in> set fld" if "t \<in> set (fld[k := mk ny nx f])" for t
    using that set_update_subset_insert [of fld k "mk ny nx f"] by auto
  moreover have "length (mk ny nx f) = ny \<and> (\<forall>r \<in> set (mk ny nx f). length r = nx)"
    by (simp add: mk_def)
  ultimately show ?thesis
    using assms(1) unfolding wf_field_def by (metis length_list_update)
qed

lemma broadcast_to_ok:
  "broadcastable s (fst a) \<Longrightarrow>
   broadcast_to s a = Inr (mk (fst s) (snd s)
      (\<lambda>i j. snd a ! (if fst (fst a) = 1 then 0 else i) ! (if snd (fst a) = 1 then 0 else j)))"
  by (simp add: broadcast_to_def)

lemma read_step_succeeds:
  assumes "k < length srcs" "k < ntile" "broadcastable (fst (srcs ! 0)) (fst (srcs ! k))"
    and "k \<noteq> 0 \<Longrightarrow> shaped (fst (srcs ! 0)) st"
  shows "\<exists>st'. read_step srcs k st = Inr st' \<and> shaped (fst (srcs ! 0)) st'"
proof (cases "k = 0")
  case True
  have "wf_field (fst (fst (srcs ! 0))) (snd (fst (srcs ! 0)))
          (replicate ntile (mk (fst (fst (srcs ! 0))) (snd (fst (srcs ! 0))) (\<lambda>i j. 0)))"
    by (simp add: wf_field_def mk_def)
  from wf_field_update [OF this assms(2)] True assms(1,3) show ?thesis
    by (simp add: read_step_def read_slice_def Let_def broadcast_to_ok shaped_def)
next
  case False
  with assms(4) have "shaped (fst (srcs ! 0)) st" by simp
  then have "fst st = fst (srcs ! 0)" "wf_field (fst (fst st)) (snd (fst st)) (snd st)"
    by (simp_all add: shaped_def)
  with wf_field_update [OF this(2) assms(2)] False assms(1,3) show ?thesis
    by (simp add: read_step_def read_slice_def Let_def broadcast_to_ok shaped_def)
qed

lemma read_all_succeeds:
  assumes "length srcs = ntile" "\<forall>k<ntile. broadcastable (fst (srcs ! 0)) (fst (srcs ! k))"
  shows "\<exists>st'. for_each [0..<ntile] (read_step srcs) st = Inr st' \<and> shaped (fst (srcs ! 0)) st'"
proof -
  from assms have 0: "0 < length srcs" "0 < ntile" "broadcastable (fst (srcs ! 0)) (fst (srcs ! 0))"
    by (simp_all add: ntile_def)
  from read_step_succeeds [OF 0, of st] obtain st1
    where 1: "read_step srcs 0 st = Inr st1" "shaped (fst (srcs ! 0)) st1" by auto
  have "\<exists>st'. for_each [1..<ntile] (read_step srcs) st1 = Inr st' \<and> shaped (fst (srcs ! 0)) st'"
    using 1(2)
  proof (rule for_each_succeeds_inv)
    fix k s assume "k \<in> set [1..<ntile]" "shaped (fst (srcs ! 0)) s"
    with assms show "\<exists>s'. read_step srcs k s = Inr s' \<and> shaped (fst (srcs ! 0)) s'"
      by (intro read_step_succeeds) simp_all
  qed
  with 1(1) show ?thesis unfolding upt_ntile by simp
qed

lemma base_step_succeeds:
  assumes "k < length bsrcs" "k < ntile" "broadcastable s (fst (bsrcs ! k))" "shaped s st"
  shows "\<exists>st'. base_step bsrcs k st = Inr st' \<and> shaped s st'"
proof -
  from assms(4) have st: "fst st = s" "wf_field (fst s) (snd s) (snd st)"
    by (simp_all add: shaped_def)
  with assms(2) have k: "k < length (snd st)" by (simp add: wf_field_def)
  let ?b = "bsrcs ! k"
  define sh where "sh = (if fst s = 1 then fst (fst ?b) else fst s, if snd s = 1 then snd (fst ?b) else snd s)"
  from assms(3) have bs: "broadcast_shape s (fst ?b) = Inr sh"
    by (auto simp: broadcast_shape_def broadcastable_def sh_def)
  from assms(3) have c1: "broadcastable sh s" "broadcastable sh (fst ?b)" "broadcastable s sh"
    by (auto simp: broadcastable_def sh_def)
  obtain d where d: "np_sub (s, snd st ! k) ?b = Inr (sh, d)"
    using bs c1 by (simp add: np_sub_def broadcast_to_ok)
  from c1(3) have "broadcast_to s (sh, d) = Inr (mk (fst s) (snd s)
      (\<lambda>i j. d ! (if fst sh = 1 then 0 else i) ! (if snd sh = 1 then 0 else j)))"
    by (simp add: broadcast_to_ok)
  with d k st wf_field_update [OF st(2) assms(2)] assms(1) show ?thesis
    by (simp add: base_step_def read_slice_def tile_def shaped_def)
qed

lemma base_all_succeeds:
  assumes "length bsrcs = ntile" "\<forall>k<ntile. broadcastable s (fst (bsrcs ! k))" "shaped s st"
  shows "\<exists>st'. for_each [0..<ntile] (base_step bsrcs) st = Inr st' \<and> shaped s st'"
  using assms(3)
proof (rule for_each_succeeds_inv)
  fix k st assume "k \<in> set [0..<ntile]" "shaped s st"
  with assms(1,2) show "\<exists>st'. base_step bsrcs k st = Inr st' \<and> shaped s st'"
    by (intro base_step_succeeds) simp_all
qed

section \<open>Properties of the field assembly\<close>

text \<open>
  C4 (shape errors in the per-tile layout). The claim: assembly fails whenever a
  tile's slice, or a baseline tile's slice, has a shape different from the first tile's.
  The source has no shape test of its own: the slice is stored with
  \<^verbatim>\<open>fld[itile,:,:] = fld_tmp\<close>, which broadcasts. Slices of shapes \<open>(1,2)\<close>, \<open>(2,1)\<close> and
  \<open>(1,1)\<close> after a first slice of shape \<open>(2,2)\<close> are stretched, and assembly succeeds.
\<close>

theorem assemble_broadcasts_example:
  "fst (slices_ok ! 1) \<noteq> fst (slices_ok ! 0)
   \<and> assemble slices_ok None =
       Inr ((2, 2), [[[1, 2], [3, 4]], [[5, 6], [5, 6]], [[7, 7], [8, 8]],
                     [[9, 9], [9, 9]], [[1, 2], [3, 4]], [[1, 2], [3, 4]]])"
  by code_simp

text \<open>
  C4, as the source behaves: with six sources, assembly raises ValueError, and returns
  no field, whenever some tile's slice cannot be broadcast to the shape of the first
  tile's slice (an axis whose length is neither the first tile's nor 1), and likewise
  when some baseline tile's slice cannot. When every slice can be broadcast, assembly
  returns a field of the first tile's shape.
\<close>

theorem assemble_shape_errors:
  assumes len: "length srcs = ntile"
  shows "((\<exists>k<ntile. \<not> broadcastable (fst (srcs ! 0)) (fst (srcs ! k)))
            \<longrightarrow> assemble srcs basesrcs = Inl ValueError)
       \<and> (length bsrcs = ntile \<and> (\<exists>k<ntile. \<not> broadcastable (fst (srcs ! 0)) (fst (bsrcs ! k)))
            \<longrightarrow> assemble srcs (Some bsrcs) = Inl ValueError)
       \<and> ((\<forall>k<ntile. broadcastable (fst (srcs ! 0)) (fst (srcs ! k)))
            \<longrightarrow> (\<exists>fld. assemble srcs None = Inr (fst (srcs ! 0), fld)
                   \<and> wf_field (fst (fst (srcs ! 0))) (snd (fst (srcs ! 0))) fld))
       \<and> (length bsrcs = ntile
            \<and> (\<forall>k<ntile. broadcastable (fst (srcs ! 0)) (fst (srcs ! k))
                       \<and> broadcastable (fst (srcs ! 0)) (fst (bsrcs ! k)))
            \<longrightarrow> (\<exists>fld. assemble srcs (Some bsrcs) = Inr (fst (srcs ! 0), fld)
                   \<and> wf_field (fst (fst (srcs ! 0))) (snd (fst (srcs ! 0))) fld))"
proof (intro conjI impI)
  assume bad: "\<exists>k<ntile. \<not> broadcastable (fst (srcs ! 0)) (fst (srcs ! k))"
  show "assemble srcs basesrcs = Inl ValueError"
  proof (cases "for_each [0..<ntile] (read_step srcs) ((0, 0), [])")
    case (Inl e)
    with read_all_error [OF Inl len] show ?thesis by (simp add: assemble_def)
  next
    case (Inr st)
    with read_all_Inr [OF Inr len] bad show ?thesis by blast
  qed
next
  assume "length bsrcs = ntile \<and> (\<exists>k<ntile. \<not> broadcastable (fst (srcs ! 0)) (fst (bsrcs ! k)))"
  then have blen: "length bsrcs = ntile"
    and bad: "\<exists>k<ntile. \<not> broadcastable (fst (srcs ! 0)) (fst (bsrcs ! k))" by simp_all
  show "assemble srcs (Some bsrcs) = Inl ValueError"
  proof (cases "for_each [0..<ntile] (read_step srcs) ((0, 0), [])")
    case (Inl e)
    with read_all_error [OF Inl len] show ?thesis by (simp add: assemble_def)
  next
    case (Inr st)
    from read_all_Inr [OF Inr len] have st: "fst st = fst (srcs ! 0)" "length (snd st) = ntile"
      by simp_all
    show ?thesis
    proof (cases "for_each [0..<ntile] (base_step bsrcs) st")
      case (Inl e)
      with base_loop_error [OF Inl blen st(2)] Inr show ?thesis by (simp add: assemble_def)
    next
      case (Inr st')
      from base_loop_Inr [OF Inr] blen st(1) bad show ?thesis by auto
    qed
  qed
next
  assume "\<forall>k<ntile. broadcastable (fst (srcs ! 0)) (fst (srcs ! k))"
  from read_all_succeeds [OF len this, of "((0, 0), [])"]
  show "\<exists>fld. assemble srcs None = Inr (fst (srcs ! 0), fld)
          \<and> wf_field (fst (fst (srcs ! 0))) (snd (fst (srcs ! 0))) fld"
    by (auto simp: assemble_def shaped_def)
next
  assume a: "length bsrcs = ntile
            \<and> (\<forall>k<ntile. broadcastable (fst (srcs ! 0)) (fst (srcs ! k))
                       \<and> broadcastable (fst (srcs ! 0)) (fst (bsrcs ! k)))"
  then have "\<forall>k<ntile. broadcastable (fst (srcs ! 0)) (fst (srcs ! k))" by simp
  from read_all_succeeds [OF len this, of "((0, 0), [])"] obtain st
    where st: "for_each [0..<ntile] (read_step srcs) ((0, 0), []) = Inr st"
      "shaped (fst (srcs ! 0)) st" by auto
  from a have "length bsrcs = ntile" "\<forall>k<ntile. broadcastable (fst (srcs ! 0)) (fst (bsrcs ! k))"
    by simp_all
  from base_all_succeeds [OF this st(2)] st(1)
  show "\<exists>fld. assemble srcs (Some bsrcs) = Inr (fst (srcs ! 0), fld)
          \<and> wf_field (fst (fst (srcs ! 0))) (snd (fst (srcs ! 0))) fld"
    by (auto simp: assemble_def shaped_def)
qed

theorem assemble_shape_errors_witness:
  "assemble slices_bad None = Inl ValueError
   \<and> assemble slices_ok (Some slices_bad) = Inl ValueError
   \<and> (\<exists>fld. assemble slices_ok None = Inr (fst (slices_ok ! 0), fld)
         \<and> wf_field (fst (fst (slices_ok ! 0))) (snd (fst (slices_ok ! 0))) fld)
   \<and> (\<exists>fld. assemble slices_ok (Some slices_ok) = Inr (fst (slices_ok ! 0), fld)
         \<and> wf_field (fst (fst (slices_ok ! 0))) (snd (fst (slices_ok ! 0))) fld)"
proof -
  have l: "length slices_bad = ntile" "length slices_ok = ntile"
    by (simp_all add: slices_bad_def slices_ok_def ntile_def)
  have b: "\<exists>k<ntile. \<not> broadcastable (fst (slices_bad ! 0)) (fst (slices_bad ! k))"
    by (rule exI [of _ 5]) (simp add: slices_bad_def ntile_def broadcastable_def)
  have b': "\<exists>k<ntile. \<not> broadcastable (fst (slices_ok ! 0)) (fst (slices_bad ! k))"
    by (rule exI [of _ 5]) (simp add: slices_bad_def slices_ok_def ntile_def broadcastable_def)
  have g: "\<forall>k<ntile. broadcastable (fst (slices_ok ! 0)) (fst (slices_ok ! k))"
    by (simp add: slices_ok_def ntile_def broadcastable_def All_less_Suc numeral_nat)
  from assemble_shape_errors [OF l(1), of None slices_bad]
    assemble_shape_errors [OF l(2), of None slices_bad]
    assemble_shape_errors [OF l(2), of None slices_ok] l b b' g
  show ?thesis by blast
qed

end
